theory Spec2Isabelle
  imports Main "HOL-Library.AList"
begin

section \<open>JSON schema synthesis for content types (plone.restapi, types/utils.py)\<close>

text \<open>
  The module turns the fieldsets of a content type into a JSON schema document. Python
  dictionaries that keep their insertion order (\<^verbatim>\<open>OrderedDict\<close>, and \<^verbatim>\<open>dict\<close>) are
  association lists here; \<^verbatim>\<open>d[k] = v\<close> is \<open>AList.update k v d\<close>, which replaces the value
  of a key that is present at its position and appends a new key at the end. Exceptions are
  values of the type \<open>error\<close>, returned as \<open>Inl\<close>.
\<close>

subsection \<open>Data\<close>

datatype json =
    JNull
  | JBool bool
  | JInt int
  | JStr string
  | JArr "json list"
  | JObj "(string \<times> json) list"

type_synonym jobj = "(string \<times> json) list"

type_synonym props = "(string \<times> jobj) list"

datatype error = AttributeError | KeyError | ComponentLookupError | OtherError string

text \<open>
  A zope.schema field, as far as the module reads it: \<^verbatim>\<open>getName()\<close>, \<^verbatim>\<open>required\<close>, and the
  attributes that the single-field query reads with \<^verbatim>\<open>getattr(field, ..., None)\<close> (an absent
  attribute is \<open>JNull\<close>, or \<open>None\<close> for the interface). \<open>field_type\<close> stands for the
  interfaces the field object provides, which is what the component registry looks at.
\<close>

record schema_field =
  getName :: string
  field_type :: string
  required :: bool
  field_default :: json
  field_defaultFactory :: json
  field_interface :: "string option"
  field_max_length :: json
  field_min_length :: json
  field_missing_value :: json
  field_order :: json
  field_readonly :: json

text \<open>
  A z3c.form field: \<^verbatim>\<open>field.__name__\<close> (\<open>ff_name\<close>), the wrapped schema field
  \<^verbatim>\<open>field.field\<close> and \<^verbatim>\<open>field.mode\<close> (\<open>None\<close> when no mode is set).
\<close>

record form_field =
  ff_name :: string
  field :: schema_field
  mode :: "string option"

text \<open>A fieldset dict \<^verbatim>\<open>{"id": ..., "title": ..., "fields": [...]}\<close>.\<close>

record fieldset =
  fieldset_id :: string
  fieldset_title :: string
  fieldset_fields :: "form_field list"

text \<open>A fieldset info dict: the same keys, with the short field names for the fields.\<close>

record fieldset_info =
  info_id :: string
  info_title :: string
  info_fields :: "string list"

text \<open>
  A widget parameter value is a literal or a callable. A callable is named by a number;
  what it returns, and what it does to the state it runs in, is given by the function
  that interprets the numbers (see \<open>get_widget_params\<close>).
\<close>

datatype pvalue = Literal json | Callable nat

text \<open>
  A tagged widget value is a dotted name or a parameterized widget with its \<^verbatim>\<open>params\<close> dict.
\<close>

datatype widget = WidgetName string | ParameterizedWidget "(string \<times> pvalue) list"

text \<open>
  A schema interface: iterating it yields \<open>schema_names\<close>; \<open>schema_widgets\<close> is
  \<^verbatim>\<open>mergedTaggedValueDict(schema, WIDGETS_KEY)\<close>.
\<close>

record schema =
  schema_name :: string
  schema_names :: "string list"
  schema_widgets :: "(string \<times> widget) list"

text \<open>A z3c.form group, and the form: its \<^verbatim>\<open>fields\<close> and \<^verbatim>\<open>groups\<close> attributes may be absent.\<close>

record form_group =
  group_name :: string
  group_label :: string
  group_fields :: "form_field list"

record form =
  form_fields :: "form_field list option"
  form_groups :: "form_group list option"

text \<open>
  A factory type information object (FTI): \<^verbatim>\<open>fti.id\<close>, \<^verbatim>\<open>fti.Title()\<close>, the outcome of
  \<^verbatim>\<open>fti.lookupSchema()\<close> and the attribute \<^verbatim>\<open>view_methods\<close>, which may be absent.
\<close>

record fti =
  fti_id :: string
  Title :: string
  lookupSchema :: "error + schema"
  view_methods :: "string list option"

text \<open>
  The collaborators of the module, for one context and request:
  the component registry (\<open>registry t n\<close> is the adapter factory registered for fields
  providing \<open>t\<close> under the name \<open>n\<close>, the unnamed registration being the one under the
  empty name; an adapter is its \<^verbatim>\<open>get_schema()\<close> as a function of the prefix set on it),
  \<^verbatim>\<open>translate\<close> (\<open>translate e msgid domain default\<close>, the domain and the default being
  \<open>None\<close> when the call does not give them), \<^verbatim>\<open>getAdditionalSchemata\<close>,
  plone.autoform's processing of a form's schemata (\<open>autoform\<close>) and the types tool.
\<close>

type_synonym adapter = "string \<Rightarrow> jobj"

record env =
  registry :: "string \<Rightarrow> string \<Rightarrow> (schema_field \<Rightarrow> adapter) option"
  translate :: "string \<Rightarrow> string option \<Rightarrow> string option \<Rightarrow> string"
  getAdditionalSchemata :: "string \<Rightarrow> schema list"
  autoform :: "schema \<Rightarrow> schema list \<Rightarrow> form"
  portal_types :: "string \<Rightarrow> fti option"

subsection \<open>Fieldsets\<close>

definition create_form :: "env \<Rightarrow> schema \<Rightarrow> schema list option \<Rightarrow> form" where
  "create_form e base_schema additional_schemata =
     autoform e base_schema (case additional_schemata of None \<Rightarrow> [] | Some a \<Rightarrow> a)"

definition iter_fields :: "fieldset list \<Rightarrow> form_field list" where
  "iter_fields fieldsets = concat (map fieldset_fields fieldsets)"

definition group_fieldset :: "env \<Rightarrow> form_group \<Rightarrow> fieldset" where
  "group_fieldset e g =
     \<lparr>fieldset_id = group_name g, fieldset_title = translate e (group_label g) None None,
      fieldset_fields = group_fields g\<rparr>"

text \<open>
  \<^verbatim>\<open>get_form_fieldsets\<close>: the fieldset \<open>default\<close> when the form has fields of its own
  (its title is \<^verbatim>\<open>translate("label_schema_default", default="Default", domain="plone")\<close>),
  then one fieldset for each group of the form, its title the translation of the group's
  label.
\<close>

definition get_form_fieldsets :: "env \<Rightarrow> form \<Rightarrow> fieldset list" where
  "get_form_fieldsets e fm =
     (let fields_values = (case form_fields fm of None \<Rightarrow> [] | Some fs \<Rightarrow> fs)
      in (if fields_values \<noteq> []
          then [\<lparr>fieldset_id = ''default'',
                 fieldset_title = translate e ''label_schema_default'' (Some ''plone'') (Some ''Default''),
                 fieldset_fields = fields_values\<rparr>]
          else [])
         @ map (group_fieldset e) (case form_groups fm of None \<Rightarrow> [] | Some gs \<Rightarrow> gs))"

definition get_fieldsets :: "env \<Rightarrow> schema \<Rightarrow> schema list option \<Rightarrow> fieldset list" where
  "get_fieldsets e sch additional_schemata =
     get_form_fieldsets e (create_form e sch additional_schemata)"

definition fieldset_to_info :: "fieldset \<Rightarrow> fieldset_info" where
  "fieldset_to_info fs =
     \<lparr>info_id = fieldset_id fs, info_title = fieldset_title fs,
      info_fields = map (\<lambda>f. getName (field f)) (fieldset_fields fs)\<rparr>"

definition get_fieldset_infos :: "fieldset list \<Rightarrow> fieldset_info list" where
  "get_fieldset_infos fieldsets = map fieldset_to_info fieldsets"

subsection \<open>Properties\<close>

text \<open>
  \<^verbatim>\<open>queryMultiAdapter(..., name=field.__name__) or getMultiAdapter(...)\<close>: the named
  registration first, the unnamed one when there is none, \<^verbatim>\<open>ComponentLookupError\<close> when
  there is neither.
\<close>

definition resolve_adapter :: "env \<Rightarrow> form_field \<Rightarrow> error + adapter" where
  "resolve_adapter e f =
     (case registry e (field_type (field f)) (ff_name f) of
        Some factory \<Rightarrow> Inr (factory (field f))
      | None \<Rightarrow>
          (case registry e (field_type (field f)) [] of
             Some factory \<Rightarrow> Inr (factory (field f))
           | None \<Rightarrow> Inl ComponentLookupError))"

text \<open>\<^verbatim>\<open>if excluded_fields is None: excluded_fields = []\<close>\<close>

definition excluded_names :: "string list option \<Rightarrow> string list" where
  "excluded_names excluded_fields = (case excluded_fields of None \<Rightarrow> [] | Some xs \<Rightarrow> xs)"

text \<open>\<^verbatim>\<open>if prefix: fieldname = ".".join([prefix, fieldname])\<close>\<close>

definition prefixed :: "string \<Rightarrow> string \<Rightarrow> string" where
  "prefixed prefix fieldname = (if prefix \<noteq> [] then prefix @ ''.'' @ fieldname else fieldname)"

text \<open>
  The loop of \<^verbatim>\<open>get_jsonschema_properties\<close> over \<^verbatim>\<open>iter_fields(fieldsets)\<close>, with the
  dictionary \<^verbatim>\<open>properties\<close> as its last argument.
\<close>

fun properties_loop ::
  "env \<Rightarrow> string \<Rightarrow> string list \<Rightarrow> string option \<Rightarrow> form_field list \<Rightarrow> props \<Rightarrow> error + props"
where
  "properties_loop e prefix excluded fname [] properties = Inr properties"
| "properties_loop e prefix excluded fname (f # fs) properties =
     (let fieldname = getName (field f) in
      if Some fieldname = fname then
        (case resolve_adapter e f of
           Inl err \<Rightarrow> Inl err
         | Inr adapter \<Rightarrow> Inr (AList.update (prefixed prefix fieldname) (adapter prefix) []))
      else if fieldname \<notin> set excluded then
        (case resolve_adapter e f of
           Inl err \<Rightarrow> Inl err
         | Inr adapter \<Rightarrow>
             properties_loop e prefix excluded fname fs
               (AList.update (prefixed prefix fieldname) (adapter prefix) properties))
      else properties_loop e prefix excluded fname fs properties)"

definition get_jsonschema_properties ::
  "env \<Rightarrow> fieldset list \<Rightarrow> string \<Rightarrow> string list option \<Rightarrow> string option \<Rightarrow> error + props"
where
  "get_jsonschema_properties e fieldsets prefix excluded_fields fname =
     properties_loop e prefix (excluded_names excluded_fields) fname (iter_fields fieldsets) []"

subsection \<open>Widget parameters\<close>

text \<open>
  \<^verbatim>\<open>get_widget_params\<close> calls the callables it finds. A call may read and change the
  state of the running system, so the loops pass a state along: the state \<open>'w\<close> that
  the callables see, and the list of the callables called so far, in the order of the
  calls. \<open>call c w\<close> is the value the callable \<open>c\<close> returns in the state \<open>w\<close>, and the
  state it leaves.
\<close>

type_synonym 'w calls = "nat \<Rightarrow> 'w \<Rightarrow> pvalue \<times> 'w"

type_synonym wparams = "(string \<times> (string \<times> pvalue) list) list"

text \<open>\<^verbatim>\<open>for k, v in widget.params.items(): if callable(v): v = v(); params[field_name][k] = v\<close>\<close>

fun params_items ::
  "'w calls \<Rightarrow> (string \<times> pvalue) list \<Rightarrow> (string \<times> pvalue) list \<Rightarrow> 'w \<times> nat list
     \<Rightarrow> (string \<times> pvalue) list \<times> ('w \<times> nat list)"
where
  "params_items call [] d s = (d, s)"
| "params_items call ((k, v) # kvs) d (w, called) =
     (case v of
        Callable c \<Rightarrow>
          (case call c w of
             (r, w') \<Rightarrow> params_items call kvs (AList.update k r d) (w', called @ [c]))
      | Literal j \<Rightarrow> params_items call kvs (AList.update k v d) (w, called))"

text \<open>The loop \<^verbatim>\<open>for field_name in schema\<close>, given the schema's tagged widget values.\<close>

fun params_names ::
  "'w calls \<Rightarrow> (string \<times> widget) list \<Rightarrow> string list \<Rightarrow> wparams \<Rightarrow> 'w \<times> nat list
     \<Rightarrow> wparams \<times> ('w \<times> nat list)"
where
  "params_names call tagged_values [] params s = (params, s)"
| "params_names call tagged_values (field_name # names) params s =
     (case map_of tagged_values field_name of
        Some (ParameterizedWidget ps) \<Rightarrow>
          (if ps \<noteq> [] then
             (case params_items call ps [] s of
                (d, s') \<Rightarrow>
                  params_names call tagged_values names (AList.update field_name d params) s')
           else params_names call tagged_values names params s)
      | _ \<Rightarrow> params_names call tagged_values names params s)"

text \<open>The loop \<^verbatim>\<open>for schema in schemas\<close>; an absent schema is \<open>None\<close>.\<close>

fun params_schemas ::
  "'w calls \<Rightarrow> schema option list \<Rightarrow> wparams \<Rightarrow> 'w \<times> nat list \<Rightarrow> wparams \<times> ('w \<times> nat list)"
where
  "params_schemas call [] params s = (params, s)"
| "params_schemas call (None # schemas) params s = params_schemas call schemas params s"
| "params_schemas call (Some sch # schemas) params s =
     (case params_names call (schema_widgets sch) (schema_names sch) params s of
        (params', s') \<Rightarrow> params_schemas call schemas params' s')"

text \<open>The result, the state the calls leave, and the callables called, in order.\<close>

definition get_widget_params ::
  "'w calls \<Rightarrow> schema option list \<Rightarrow> 'w \<Rightarrow> wparams \<times> 'w \<times> nat list"
where
  "get_widget_params call schemas w =
     (case params_schemas call schemas [] (w, []) of
        (params, (w', called)) \<Rightarrow> (params, w', called))"

subsection \<open>The schema of a type\<close>

text \<open>
  Modelled from the spec: the converter \<^verbatim>\<open>IJsonCompatible\<close>
  (plone.restapi.serializer.converters) is not among the source files. The spec gives the
  \<^verbatim>\<open>properties\<close> of the document as the ordered mapping from field names to the
  synthesized properties, so the converter is the identity on data that is JSON already.
\<close>

definition IJsonCompatible :: "'a \<Rightarrow> 'a" where
  "IJsonCompatible x = x"

record document =
  doc_type :: string
  doc_title :: string
  doc_properties :: props
  doc_required :: "string list"
  doc_fieldsets :: "fieldset_info list"
  doc_layouts :: "string list"

text \<open>
  The block \<^verbatim>\<open>try: schema = fti.lookupSchema() except AttributeError: ... else: ...\<close>, which
  \<^verbatim>\<open>get_jsonschema_for_fti\<close> and \<^verbatim>\<open>get_info_for_field\<close> both start with: the
  fieldsets of the type, none when the lookup raises \<^verbatim>\<open>AttributeError\<close>; any other
  exception goes on to the caller.
\<close>

definition lookup_fieldsets :: "env \<Rightarrow> fti \<Rightarrow> error + fieldset list" where
  "lookup_fieldsets e t =
     (case lookupSchema t of
        Inl AttributeError \<Rightarrow> Inr []
      | Inl err \<Rightarrow> Inl err
      | Inr sch \<Rightarrow> Inr (get_fieldsets e sch (Some (getAdditionalSchemata e (fti_id t)))))"

text \<open>\<^verbatim>\<open>for field in iter_fields(fieldsets): if field.field.required: required.append(...)\<close>\<close>

fun required_loop :: "form_field list \<Rightarrow> string list \<Rightarrow> string list" where
  "required_loop [] req = req"
| "required_loop (f # fs) req =
     required_loop fs (if required (field f) then req @ [getName (field f)] else req)"

text \<open>
  \<^verbatim>\<open>for field in iter_fields(fieldsets): if field.mode:
  properties[field.field.getName()]["mode"] = field.mode\<close>. A mode is truthy when it is a
  non-empty string; reading a key that \<^verbatim>\<open>properties\<close> does not have raises
  \<^verbatim>\<open>KeyError\<close>.
\<close>

fun include_modes :: "form_field list \<Rightarrow> props \<Rightarrow> error + props" where
  "include_modes [] properties = Inr properties"
| "include_modes (f # fs) properties =
     (case mode f of
        None \<Rightarrow> include_modes fs properties
      | Some m \<Rightarrow>
          (if m \<noteq> [] then
             (case map_of properties (getName (field f)) of
                None \<Rightarrow> Inl KeyError
              | Some p \<Rightarrow>
                  include_modes fs
                    (AList.update (getName (field f)) (AList.update ''mode'' (JStr m) p)
                       properties))
           else include_modes fs properties))"

definition get_jsonschema_for_fti :: "env \<Rightarrow> fti \<Rightarrow> string list option \<Rightarrow> error + document" where
  "get_jsonschema_for_fti e t excluded_fields =
     (let excluded = excluded_names excluded_fields in
      case lookup_fieldsets e t of
        Inl err \<Rightarrow> Inl err
      | Inr fieldsets \<Rightarrow>
          (case get_jsonschema_properties e fieldsets [] (Some excluded) None of
             Inl err \<Rightarrow> Inl err
           | Inr properties \<Rightarrow>
               (let req = required_loop (iter_fields fieldsets) [] in
                case include_modes (iter_fields fieldsets) properties of
                  Inl err \<Rightarrow> Inl err
                | Inr properties' \<Rightarrow>
                    Inr \<lparr>doc_type = ''object'',
                         doc_title = translate e (Title t) None None,
                         doc_properties = IJsonCompatible properties',
                         doc_required = req,
                         doc_fieldsets = get_fieldset_infos fieldsets,
                         doc_layouts = (case view_methods t of None \<Rightarrow> [] | Some vs \<Rightarrow> vs)\<rparr>)))"

definition get_jsonschema_for_portal_type ::
  "env \<Rightarrow> string \<Rightarrow> string list option \<Rightarrow> error + document"
where
  "get_jsonschema_for_portal_type e portal_type excluded_fields =
     (case portal_types e portal_type of
        None \<Rightarrow> Inl KeyError
      | Some t \<Rightarrow> get_jsonschema_for_fti e t excluded_fields)"

subsection \<open>The single-field query\<close>

definition props_json :: "props \<Rightarrow> json" where
  "props_json properties = JObj (map (\<lambda>(k, p). (k, JObj p)) properties)"

definition info_json :: "fieldset_info \<Rightarrow> json" where
  "info_json i =
     JObj [(''id'', JStr (info_id i)), (''title'', JStr (info_title i)),
           (''fields'', JArr (map JStr (info_fields i)))]"

definition not_found :: json where
  "not_found = JObj [(''message'', JStr ''No entry could be found for the supplied name.'')]"

text \<open>
  The nine assignments \<^verbatim>\<open>properties[field_name][...] = getattr(field, ..., None)\<close>, on the
  property of the field.
\<close>

definition decorate :: "schema_field \<Rightarrow> jobj \<Rightarrow> jobj" where
  "decorate fld p =
     AList.update ''required'' (JBool (required fld))
      (AList.update ''readonly'' (field_readonly fld)
        (AList.update ''order'' (field_order fld)
          (AList.update ''missing_value'' (field_missing_value fld)
            (AList.update ''min_length'' (field_min_length fld)
              (AList.update ''max_length'' (field_max_length fld)
                (AList.update ''interface''
                   (JStr (case field_interface fld of None \<Rightarrow> ''None'' | Some i \<Rightarrow> i))
                  (AList.update ''defaultFactory'' (field_defaultFactory fld)
                    (AList.update ''default'' (field_default fld) p))))))))"

text \<open>The body of the branch taken for a field whose name is the supplied one.\<close>

definition field_info :: "env \<Rightarrow> fieldset \<Rightarrow> form_field \<Rightarrow> string \<Rightarrow> error + json" where
  "field_info e fs f field_name =
     (case get_jsonschema_properties e [fs] [] None (Some field_name) of
        Inl err \<Rightarrow> Inl err
      | Inr properties \<Rightarrow>
          (case map_of properties field_name of
             None \<Rightarrow> Inl KeyError
           | Some p \<Rightarrow>
               Inr (IJsonCompatible
                      (props_json (AList.update field_name (decorate (field f) p) properties)))))"

text \<open>
  \<^verbatim>\<open>for field in fieldset['fields']\<close>: \<open>Some\<close> what the function returns from inside the
  loop, \<open>None\<close> when the loop ends.
\<close>

fun info_fields :: "env \<Rightarrow> fieldset \<Rightarrow> string \<Rightarrow> form_field list \<Rightarrow> (error + json) option" where
  "info_fields e fs field_name [] = None"
| "info_fields e fs field_name (f # rest) =
     (if getName (field f) = field_name then Some (field_info e fs f field_name)
      else info_fields e fs field_name rest)"

text \<open>\<^verbatim>\<open>for fieldset in fieldsets\<close>, and the return after it.\<close>

fun info_fieldsets :: "env \<Rightarrow> string \<Rightarrow> fieldset list \<Rightarrow> error + json" where
  "info_fieldsets e field_name [] = Inr not_found"
| "info_fieldsets e field_name (fs # rest) =
     (if fieldset_id fs = field_name then Inr (info_json (hd (get_fieldset_infos [fs])))
      else
        (case info_fields e fs field_name (fieldset_fields fs) of
           Some r \<Rightarrow> r
         | None \<Rightarrow> info_fieldsets e field_name rest))"

definition get_info_for_field :: "env \<Rightarrow> string \<Rightarrow> string \<Rightarrow> error + json" where
  "get_info_for_field e portal_type field_name =
     (case portal_types e portal_type of
        None \<Rightarrow> Inl KeyError
      | Some t \<Rightarrow>
          (case lookup_fieldsets e t of
             Inl err \<Rightarrow> Inl err
           | Inr fieldsets \<Rightarrow> info_fieldsets e field_name fieldsets))"

subsection \<open>Notions used in the statements\<close>

text \<open>
  The keys of a dictionary in the order of their first insertion, when the keys \<open>ks\<close>
  are stored one after the other into a dictionary that starts with the keys \<open>seen\<close>.
\<close>

definition insert_order :: "'a list \<Rightarrow> 'a list \<Rightarrow> 'a list" where
  "insert_order seen ks = foldl (\<lambda>acc k. if k \<in> set acc then acc else acc @ [k]) seen ks"

text \<open>The short name of a form field, and its mode when \<^verbatim>\<open>if field.mode\<close> holds.\<close>

definition short_name :: "form_field \<Rightarrow> string" where
  "short_name f = getName (field f)"

definition truthy_mode :: "form_field \<Rightarrow> string option" where
  "truthy_mode f = (case mode f of None \<Rightarrow> None | Some m \<Rightarrow> if m \<noteq> [] then Some m else None)"

text \<open>The mode of the last field named \<open>n\<close> that has a mode.\<close>

fun last_mode :: "string \<Rightarrow> form_field list \<Rightarrow> string option" where
  "last_mode n [] = None"
| "last_mode n (f # fs) =
     (case last_mode n fs of
        Some m \<Rightarrow> Some m
      | None \<Rightarrow> if short_name f = n then truthy_mode f else None)"

text \<open>
  The callables among the parameters that \<^verbatim>\<open>get_widget_params\<close> goes through, one entry
  for each occurrence, in the order of the traversal: schema by schema, name by name,
  parameter by parameter.
\<close>

definition widget_callables :: "(string \<times> pvalue) list \<Rightarrow> nat list" where
  "widget_callables ps =
     concat (map (\<lambda>(k, v). case v of Callable c \<Rightarrow> [c] | Literal j \<Rightarrow> []) ps)"

definition schema_callables :: "schema \<Rightarrow> nat list" where
  "schema_callables sch =
     concat (map (\<lambda>n. case map_of (schema_widgets sch) n of
                        Some (ParameterizedWidget ps) \<Rightarrow> widget_callables ps
                      | _ \<Rightarrow> [])
                 (schema_names sch))"

definition declared_callables :: "schema option list \<Rightarrow> nat list" where
  "declared_callables schemas =
     concat (map (\<lambda>s. case s of None \<Rightarrow> [] | Some sch \<Rightarrow> schema_callables sch) schemas)"

text \<open>
  The parameterized widgets that \<^verbatim>\<open>get_widget_params\<close> goes through, each with the name
  it is declared for, in the order of the traversal: for each schema that is present, for
  each of its names, the widget tagged for the name when it is a parameterized widget with
  parameters.
\<close>

definition schema_declarations :: "schema \<Rightarrow> (string \<times> (string \<times> pvalue) list) list" where
  "schema_declarations sch =
     concat (map (\<lambda>n. case map_of (schema_widgets sch) n of
                        Some (ParameterizedWidget ps) \<Rightarrow> if ps \<noteq> [] then [(n, ps)] else []
                      | _ \<Rightarrow> [])
                 (schema_names sch))"

definition declarations :: "schema option list \<Rightarrow> (string \<times> (string \<times> pvalue) list) list" where
  "declarations schemas =
     concat (map (\<lambda>s. case s of None \<Rightarrow> [] | Some sch \<Rightarrow> schema_declarations sch) schemas)"

text \<open>
  What the callables \<open>cs\<close> return when they are called one after the other, the first in
  the state \<open>w\<close> and each of the others in the state the call before it leaves; and the
  state the last call leaves.
\<close>

fun call_results :: "'w calls \<Rightarrow> nat list \<Rightarrow> 'w \<Rightarrow> pvalue list" where
  "call_results call [] w = []"
| "call_results call (c # cs) w = fst (call c w) # call_results call cs (snd (call c w))"

fun call_state :: "'w calls \<Rightarrow> nat list \<Rightarrow> 'w \<Rightarrow> 'w" where
  "call_state call [] w = w"
| "call_state call (c # cs) w = call_state call cs (snd (call c w))"

text \<open>
  The parameters \<open>ps\<close> with the first callable replaced by the first of the results
  \<open>rs\<close>, the second by the second, and so on; literals stay.
\<close>

fun fill_results :: "(string \<times> pvalue) list \<Rightarrow> pvalue list \<Rightarrow> (string \<times> pvalue) list" where
  "fill_results [] rs = []"
| "fill_results ((k, Literal j) # kvs) rs = (k, Literal j) # fill_results kvs rs"
| "fill_results ((k, Callable c) # kvs) [] = (k, Callable c) # fill_results kvs []"
| "fill_results ((k, Callable c) # kvs) (r # rs) = (k, r) # fill_results kvs rs"

text \<open>The same for a list of declarations: each takes as many results as it has callables.\<close>

fun fill_declarations ::
  "(string \<times> (string \<times> pvalue) list) list \<Rightarrow> pvalue list
     \<Rightarrow> (string \<times> (string \<times> pvalue) list) list"
where
  "fill_declarations [] rs = []"
| "fill_declarations ((n, ps) # ds) rs =
     (n, fill_results ps (take (length (widget_callables ps)) rs))
       # fill_declarations ds (drop (length (widget_callables ps)) rs)"

text \<open>The dictionary that results from assigning the pairs \<open>kvs\<close>, in order, into \<open>d\<close>.\<close>

definition assign_all :: "('k \<times> 'v) list \<Rightarrow> ('k \<times> 'v) list \<Rightarrow> ('k \<times> 'v) list" where
  "assign_all d kvs = foldl (\<lambda>acc (k, v). AList.update k v acc) d kvs"

text \<open>
  The callables of a list of declarations, and the declarations resolved: the callables
  replaced by what they return when called in order from the state \<open>w\<close>, and the
  parameters of each declaration assigned into a dictionary of its own.
\<close>

definition callables_of :: "(string \<times> (string \<times> pvalue) list) list \<Rightarrow> nat list" where
  "callables_of ds = concat (map (\<lambda>(n, ps). widget_callables ps) ds)"

definition resolved :: "'w calls \<Rightarrow> (string \<times> (string \<times> pvalue) list) list \<Rightarrow> 'w \<Rightarrow> wparams" where
  "resolved call ds w =
     map (\<lambda>(n, kvs). (n, assign_all [] kvs))
       (fill_declarations ds (call_results call (callables_of ds) w))"

text \<open>A parameter value with a callable replaced by the value \<open>res\<close> gives for it.\<close>

definition resolve_with :: "(nat \<Rightarrow> pvalue) \<Rightarrow> pvalue \<Rightarrow> pvalue" where
  "resolve_with res v = (case v of Callable c \<Rightarrow> res c | Literal j \<Rightarrow> Literal j)"

text \<open>A resolved parameter mapping holds no callable.\<close>

definition is_literal :: "pvalue \<Rightarrow> bool" where
  "is_literal v = (case v of Literal j \<Rightarrow> True | Callable c \<Rightarrow> False)"

definition literal_params :: "wparams \<Rightarrow> bool" where
  "literal_params params = list_all (\<lambda>(n, d). list_all (\<lambda>(k, v). is_literal v) d) params"

subsection \<open>Sample types\<close>

definition text_schema :: "schema_field \<Rightarrow> adapter" where
  "text_schema fld prefix = [(''type'', JStr ''string''), (''title'', JStr (getName fld))]"

definition related_schema :: "schema_field \<Rightarrow> adapter" where
  "related_schema fld prefix = [(''type'', JStr ''array'')]"

text \<open>
  The adapter for relation lists renders the choices; the one registered under the name
  \<open>relatedItems\<close> does not.
\<close>

definition choices_schema :: "schema_field \<Rightarrow> adapter" where
  "choices_schema fld prefix = [(''type'', JStr ''array''), (''choices'', JArr [])]"

definition sample_registry :: "string \<Rightarrow> string \<Rightarrow> (schema_field \<Rightarrow> adapter) option" where
  "sample_registry t n =
     (if t = ''TextLine'' \<and> n = [] then Some text_schema
      else if t = ''RelationList'' \<and> n = ''relatedItems'' then Some related_schema
      else if t = ''RelationList'' \<and> n = [] then Some choices_schema
      else None)"

definition sample_field :: "string \<Rightarrow> string \<Rightarrow> bool \<Rightarrow> schema_field" where
  "sample_field n t r =
     \<lparr>getName = n, field_type = t, required = r, field_default = JNull,
      field_defaultFactory = JNull, field_interface = None, field_max_length = JNull,
      field_min_length = JNull, field_missing_value = JNull, field_order = JNull,
      field_readonly = JBool False\<rparr>"

definition title_field :: form_field where
  "title_field = \<lparr>ff_name = ''title'', field = sample_field ''title'' ''TextLine'' True, mode = None\<rparr>"

definition summary_field :: form_field where
  "summary_field =
     \<lparr>ff_name = ''summary'', field = sample_field ''summary'' ''TextLine'' False, mode = None\<rparr>"

definition notes_field :: form_field where
  "notes_field =
     \<lparr>ff_name = ''notes'', field = sample_field ''notes'' ''TextLine'' False,
      mode = Some ''hidden''\<rparr>"

definition related_field :: form_field where
  "related_field =
     \<lparr>ff_name = ''relatedItems'', field = sample_field ''relatedItems'' ''RelationList'' False,
      mode = None\<rparr>"

definition other_title_field :: form_field where
  "other_title_field =
     \<lparr>ff_name = ''IOther.title'', field = sample_field ''title'' ''TextLine'' True,
      mode = Some ''display''\<rparr>"

definition ownership_field :: form_field where
  "ownership_field =
     \<lparr>ff_name = ''ownership'', field = sample_field ''ownership'' ''TextLine'' False,
      mode = None\<rparr>"

definition object_field :: form_field where
  "object_field =
     \<lparr>ff_name = ''payload'', field = sample_field ''payload'' ''Object'' False, mode = None\<rparr>"

definition document_form :: form where
  "document_form =
     \<lparr>form_fields = Some [title_field, summary_field, notes_field],
      form_groups = Some [\<lparr>group_name = ''categorization'', group_label = ''Categorization'',
                           group_fields = [related_field]\<rparr>]\<rparr>"

definition event_form :: form where
  "event_form =
     \<lparr>form_fields = Some [title_field],
      form_groups = Some [\<lparr>group_name = ''other'', group_label = ''Other'',
                           group_fields = [other_title_field]\<rparr>]\<rparr>"

definition folder_form :: form where
  "folder_form =
     \<lparr>form_fields = Some [title_field, ownership_field],
      form_groups = Some [\<lparr>group_name = ''ownership'', group_label = ''Ownership'',
                           group_fields = [summary_field]\<rparr>]\<rparr>"

definition file_form :: form where
  "file_form = \<lparr>form_fields = Some [title_field, object_field], form_groups = Some []\<rparr>"

definition sample_schema :: "string \<Rightarrow> schema" where
  "sample_schema n = \<lparr>schema_name = n, schema_names = [], schema_widgets = []\<rparr>"

definition sample_fti :: "string \<Rightarrow> string \<Rightarrow> fti" where
  "sample_fti n sch =
     \<lparr>fti_id = n, Title = n, lookupSchema = Inr (sample_schema sch),
      view_methods = Some [''view'']\<rparr>"

definition site_fti :: fti where
  "site_fti =
     \<lparr>fti_id = ''Plone Site'', Title = ''Plone Site'', lookupSchema = Inl AttributeError,
      view_methods = Some [''listing_view'']\<rparr>"

definition sample_env :: env where
  "sample_env =
     \<lparr>registry = sample_registry,
      translate = (\<lambda>msgid domain fallback. case fallback of None \<Rightarrow> msgid | Some d \<Rightarrow> d),
      getAdditionalSchemata = (\<lambda>n. []),
      autoform = (\<lambda>sch additional.
         if schema_name sch = ''IEvent'' then event_form
         else if schema_name sch = ''IFolder'' then folder_form
         else if schema_name sch = ''IFile'' then file_form
         else document_form),
      portal_types = (\<lambda>n.
         if n = ''Document'' then Some (sample_fti ''Document'' ''IDocument'')
         else if n = ''Event'' then Some (sample_fti ''Event'' ''IEvent'')
         else if n = ''Folder'' then Some (sample_fti ''Folder'' ''IFolder'')
         else if n = ''File'' then Some (sample_fti ''File'' ''IFile'')
         else if n = ''Plone Site'' then Some site_fti
         else None)\<rparr>"

definition document_fieldsets :: "fieldset list" where
  "document_fieldsets = get_form_fieldsets sample_env document_form"

text \<open>
  Widget declarations: a literal, a callable that counts its calls (callable 0 returns the
  state, a number, and increments it) and a callable that returns a callable (callable 1).
\<close>

definition sample_calls :: "nat calls" where
  "sample_calls c w =
     (if c = 0 then (Literal (JInt (int w)), Suc w)
      else if c = 1 then (Callable 0, w)
      else (Literal JNull, w))"

text \<open>Callables that return a literal and leave the state as it is.\<close>

definition constant_calls :: "nat calls" where
  "constant_calls c w = (Literal (JInt (int c)), w)"

definition widget_schema :: schema where
  "widget_schema =
     \<lparr>schema_name = ''IWidgets'', schema_names = [''subjects'', ''title''],
      schema_widgets =
        [(''subjects'', ParameterizedWidget
            [(''vocabulary'', Literal (JStr ''keywords'')), (''limit'', Callable 0)]),
         (''title'', WidgetName ''plone.app.z3cform.widget.TextWidget'')]\<rparr>"

definition nested_schema :: schema where
  "nested_schema =
     \<lparr>schema_name = ''INested'', schema_names = [''subjects''],
      schema_widgets = [(''subjects'', ParameterizedWidget [(''factory'', Callable 1)])]\<rparr>"

section \<open>Properties of the module\<close>

subsection \<open>Evaluation of the sample types\<close>

lemmas sample_defs =
  sample_env_def sample_registry_def sample_field_def title_field_def summary_field_def
  notes_field_def related_field_def other_title_field_def ownership_field_def object_field_def
  document_form_def event_form_def folder_form_def file_form_def sample_schema_def
  sample_fti_def site_fti_def text_schema_def related_schema_def choices_schema_def
  document_fieldsets_def

lemmas model_defs =
  get_jsonschema_properties_def iter_fields_def get_form_fieldsets_def group_fieldset_def
  resolve_adapter_def prefixed_def excluded_names_def short_name_def Let_def

subsection \<open>The loop over the fields\<close>

lemma prefixed_inj: "prefixed p a = prefixed p b \<Longrightarrow> a = b"
  by (simp add: prefixed_def split: if_splits)

lemma resolve_adapter_error: "resolve_adapter e f = Inl err \<Longrightarrow> err = ComponentLookupError"
  by (auto simp: resolve_adapter_def split: option.splits)

text \<open>
  Fields that do not match \<open>fname\<close> and are excluded or have an adapter only change the
  dictionary the loop goes on with.
\<close>

lemma loop_skip_prefix:
  "\<forall>g\<in>set pre. Some (short_name g) \<noteq> fname \<and>
       (short_name g \<in> set excl \<or> (\<exists>a. resolve_adapter e g = Inr a)) \<Longrightarrow>
   \<exists>acc'. properties_loop e prefix excl fname (pre @ rest) acc =
          properties_loop e prefix excl fname rest acc'"
proof (induction pre arbitrary: acc)
  case Nil
  then show ?case by auto
next
  case (Cons g pre)
  then show ?case
    by (auto simp: short_name_def Let_def)
qed

lemma loop_match:
  "short_name f = F \<Longrightarrow> resolve_adapter e f = Inr a \<Longrightarrow>
   properties_loop e prefix excl (Some F) (f # post) acc = Inr [(prefixed prefix F, a prefix)]"
  by (simp add: short_name_def)

lemma loop_no_match:
  "\<forall>g\<in>set fs. short_name g \<noteq> F \<Longrightarrow>
   properties_loop e prefix excl (Some F) fs acc = properties_loop e prefix excl None fs acc"
  by (induction fs arbitrary: acc) (auto simp: short_name_def Let_def split: sum.splits)

text \<open>
  Every key of the result was in the dictionary at the start, or is the output key of a
  name that is not excluded or is \<open>fname\<close>.
\<close>

lemma loop_keys:
  "properties_loop e prefix excl fname fs acc = Inr properties \<Longrightarrow>
   fst ` set properties \<subseteq>
     fst ` set acc \<union> prefixed prefix ` {n. n \<notin> set excl \<or> Some n = fname}"
proof (induction fs arbitrary: acc)
  case Nil
  then show ?case by auto
next
  case (Cons f fs)
  show ?case
  proof (cases "Some (getName (field f)) = fname")
    case True
    with Cons.prems show ?thesis
      by (auto simp: Let_def split: sum.splits)
  next
    case False
    note nomatch = this
    show ?thesis
    proof (cases "getName (field f) \<in> set excl")
      case True
      with nomatch Cons.prems have "properties_loop e prefix excl fname fs acc = Inr properties"
        by (simp add: Let_def)
      from Cons.IH [OF this] show ?thesis .
    next
      case False
      with nomatch Cons.prems obtain a where
        a: "resolve_adapter e f = Inr a" and
        r: "properties_loop e prefix excl fname fs
              (AList.update (prefixed prefix (getName (field f))) (a prefix) acc) = Inr properties"
        by (auto simp: Let_def split: sum.splits)
      from Cons.IH [OF r] False show ?thesis
        by (auto simp: AList.dom_update)
    qed
  qed
qed

subsection \<open>The single-field argument\<close>

text \<open>
  C1, as the code has it. With \<open>fname = F\<close>, when a field named \<open>F\<close> exists, its adapter
  is found, and every field before the first such field is excluded or has an adapter
  (the fields before it are still run through the registry, and their properties dropped
  at the match), the result is the one entry for \<open>F\<close>, under the key \<open>F\<close>, prefixed when
  the prefix is not empty; the fields after it (\<open>post\<close>) play no part. When no field is
  named \<open>F\<close>, the argument has no effect: the result is that of the call without
  \<open>fname\<close>, the properties of all fields that are not excluded, and not the empty mapping.
\<close>

theorem single_field_properties:
  "(iter_fields fieldsets = pre @ f # post \<and> short_name f = F \<and>
    (\<forall>g\<in>set pre. short_name g \<noteq> F \<and>
       (short_name g \<in> set (excluded_names excluded_fields) \<or>
        (\<exists>b. resolve_adapter e g = Inr b))) \<and>
    resolve_adapter e f = Inr a
    \<longrightarrow> get_jsonschema_properties e fieldsets prefix excluded_fields (Some F) =
          Inr [(prefixed prefix F, a prefix)])
   \<and> ((\<forall>g\<in>set (iter_fields fieldsets). short_name g \<noteq> F)
    \<longrightarrow> get_jsonschema_properties e fieldsets prefix excluded_fields (Some F) =
          get_jsonschema_properties e fieldsets prefix excluded_fields None)"
proof (intro conjI impI)
  assume h: "iter_fields fieldsets = pre @ f # post \<and> short_name f = F \<and>
    (\<forall>g\<in>set pre. short_name g \<noteq> F \<and>
       (short_name g \<in> set (excluded_names excluded_fields) \<or>
        (\<exists>b. resolve_adapter e g = Inr b))) \<and>
    resolve_adapter e f = Inr a"
  then have "\<forall>g\<in>set pre. Some (short_name g) \<noteq> Some F \<and>
       (short_name g \<in> set (excluded_names excluded_fields) \<or>
        (\<exists>b. resolve_adapter e g = Inr b))"
    by simp
  from loop_skip_prefix [OF this]
  obtain acc' where
    "properties_loop e prefix (excluded_names excluded_fields) (Some F) (pre @ f # post) [] =
     properties_loop e prefix (excluded_names excluded_fields) (Some F) (f # post) acc'"
    by blast
  moreover have
    "properties_loop e prefix (excluded_names excluded_fields) (Some F) (f # post) acc' =
     Inr [(prefixed prefix F, a prefix)]"
    using h by (intro loop_match) auto
  ultimately show "get_jsonschema_properties e fieldsets prefix excluded_fields (Some F) =
          Inr [(prefixed prefix F, a prefix)]"
    using h by (simp add: get_jsonschema_properties_def del: properties_loop.simps)
next
  assume "\<forall>g\<in>set (iter_fields fieldsets). short_name g \<noteq> F"
  then show "get_jsonschema_properties e fieldsets prefix excluded_fields (Some F) =
          get_jsonschema_properties e fieldsets prefix excluded_fields None"
    by (simp add: get_jsonschema_properties_def loop_no_match)
qed

text \<open>
  The sample document type, asked for \<open>summary\<close> with the prefix \<open>p\<close>, and for a name
  that no field has.
\<close>

theorem single_field_properties_witness:
  "iter_fields document_fieldsets = [title_field] @ summary_field # [notes_field, related_field]
   \<and> get_jsonschema_properties sample_env document_fieldsets ''p'' None (Some ''summary'') =
       Inr [(''p.summary'', text_schema (field summary_field) ''p'')]
   \<and> get_jsonschema_properties sample_env document_fieldsets ''p'' None (Some ''missing'') =
       get_jsonschema_properties sample_env document_fieldsets ''p'' None None"
  using single_field_properties [where fieldsets = document_fieldsets and pre = "[title_field]"
      and f = summary_field and post = "[notes_field, related_field]" and F = "''summary''"
      and excluded_fields = None and e = sample_env
      and a = "text_schema (field summary_field)" and prefix = "''p''"]
    single_field_properties [where fieldsets = document_fieldsets and F = "''missing''"
      and excluded_fields = None and e = sample_env and prefix = "''p''"]
  by (simp add: sample_defs model_defs)

text \<open>
  The claim as stated fails: no field of the sample document type is named \<open>missing\<close>, and
  the call with \<open>fname = missing\<close> returns four properties.
\<close>

theorem single_field_absent_counterexample:
  "''missing'' \<notin> set (map short_name (iter_fields document_fieldsets))
   \<and> get_jsonschema_properties sample_env document_fieldsets [] None (Some ''missing'') =
       Inr [(''title'', [(''type'', JStr ''string''), (''title'', JStr ''title'')]),
            (''summary'', [(''type'', JStr ''string''), (''title'', JStr ''summary'')]),
            (''notes'', [(''type'', JStr ''string''), (''title'', JStr ''notes'')]),
            (''relatedItems'', [(''type'', JStr ''array'')])]"
  by (simp add: sample_defs model_defs)

subsection \<open>Excluded fields\<close>

text \<open>
  C2, as the code has it. Whenever the call returns, the result has no entry for a name
  \<open>N\<close> of \<open>excluded_fields\<close> (no key \<open>N\<close>, prefixed when the prefix is not empty),
  provided \<open>N\<close> is not the \<open>fname\<close> argument: the test for \<open>fname\<close> comes before the
  test for exclusion.
\<close>

theorem excluded_fields_not_emitted:
  "get_jsonschema_properties e fieldsets prefix excluded_fields fname = Inr properties \<Longrightarrow>
   N \<in> set (excluded_names excluded_fields) \<Longrightarrow> fname \<noteq> Some N \<Longrightarrow>
   prefixed prefix N \<notin> fst ` set properties"
proof
  assume r: "get_jsonschema_properties e fieldsets prefix excluded_fields fname = Inr properties"
    and ex: "N \<in> set (excluded_names excluded_fields)" and fn: "fname \<noteq> Some N"
    and "prefixed prefix N \<in> fst ` set properties"
  with loop_keys [OF r [unfolded get_jsonschema_properties_def]]
  obtain n where "prefixed prefix N = prefixed prefix n"
    and n: "n \<notin> set (excluded_names excluded_fields) \<or> Some n = fname"
    by auto
  then have "n = N" by (auto dest: prefixed_inj)
  with n ex fn show False by auto
qed

text \<open>The sample document type without \<open>title\<close> and \<open>notes\<close>, with the prefix \<open>p\<close>.\<close>

theorem excluded_fields_not_emitted_witness:
  "get_jsonschema_properties sample_env document_fieldsets ''p'' (Some [''title'', ''notes'']) None =
     Inr [(''p.summary'', [(''type'', JStr ''string''), (''title'', JStr ''summary'')]),
          (''p.relatedItems'', [(''type'', JStr ''array'')])]
   \<and> ''p.title'' \<notin> fst ` set [(''p.summary'', [(''type'', JStr ''string''), (''title'', JStr ''summary'')]),
          (''p.relatedItems'', [(''type'', JStr ''array'')])]"
proof -
  have r: "get_jsonschema_properties sample_env document_fieldsets ''p'' (Some [''title'', ''notes'']) None =
     Inr [(''p.summary'', [(''type'', JStr ''string''), (''title'', JStr ''summary'')]),
          (''p.relatedItems'', [(''type'', JStr ''array'')])]"
    by (simp add: sample_defs model_defs)
  have "prefixed ''p'' ''title'' \<notin> fst ` set [(''p.summary'', [(''type'', JStr ''string''), (''title'', JStr ''summary'')]),
          (''p.relatedItems'', [(''type'', JStr ''array'')])]"
    by (rule excluded_fields_not_emitted [OF r]) (simp_all add: excluded_names_def)
  with r show ?thesis by (simp add: prefixed_def)
qed

text \<open>
  The claim as stated fails: \<open>title\<close> is excluded and is the \<open>fname\<close> argument, and the
  result has the key \<open>title\<close>.
\<close>

theorem excluded_fname_counterexample:
  "''title'' \<in> set (excluded_names (Some [''title'']))
   \<and> get_jsonschema_properties sample_env document_fieldsets [] (Some [''title''])
        (Some ''title'') =
       Inr [(''title'', [(''type'', JStr ''string''), (''title'', JStr ''title'')])]"
  by (simp add: sample_defs model_defs)

subsection \<open>The order of the properties\<close>

lemma insert_order_Cons:
  "insert_order seen (k # ks) = insert_order (if k \<in> set seen then seen else seen @ [k]) ks"
  by (simp add: insert_order_def)

lemma insert_order_Nil: "insert_order seen [] = seen"
  by (simp add: insert_order_def)

lemma insert_order_distinct:
  "distinct (seen @ ks) \<Longrightarrow> insert_order seen ks = seen @ ks"
  by (induction ks arbitrary: seen) (auto simp: insert_order_Cons insert_order_Nil)

lemma loop_order:
  "\<forall>g\<in>set fs. Some (short_name g) \<noteq> fname \<Longrightarrow>
   properties_loop e prefix excl fname fs acc = Inr properties \<Longrightarrow>
   map fst properties =
     insert_order (map fst acc)
       (map (\<lambda>g. prefixed prefix (short_name g)) (filter (\<lambda>g. short_name g \<notin> set excl) fs))"
proof (induction fs arbitrary: acc)
  case Nil
  then show ?case by (simp add: insert_order_Nil)
next
  case (Cons f fs)
  from Cons.prems have nomatch: "Some (getName (field f)) \<noteq> fname"
    and rest: "\<forall>g\<in>set fs. Some (short_name g) \<noteq> fname"
    by (simp_all add: short_name_def)
  show ?case
  proof (cases "getName (field f) \<in> set excl")
    case True
    with nomatch Cons.prems have "properties_loop e prefix excl fname fs acc = Inr properties"
      by (simp add: Let_def)
    from Cons.IH [OF rest this] True show ?thesis
      by (simp add: short_name_def)
  next
    case False
    with nomatch Cons.prems obtain a where
      r: "properties_loop e prefix excl fname fs
            (AList.update (prefixed prefix (getName (field f))) (a prefix) acc) = Inr properties"
      by (auto simp: Let_def split: sum.splits)
    from Cons.IH [OF rest r] False show ?thesis
      by (simp add: short_name_def insert_order_Cons AList.update_keys)
  qed
qed

lemma loop_error:
  "\<forall>g\<in>set pre. Some (short_name g) \<noteq> fname \<Longrightarrow>
   Some (short_name f) = fname \<or> short_name f \<notin> set excl \<Longrightarrow>
   resolve_adapter e f = Inl ComponentLookupError \<Longrightarrow>
   properties_loop e prefix excl fname (pre @ f # post) acc = Inl ComponentLookupError"
proof (induction pre arbitrary: acc)
  case Nil
  then show ?case by (auto simp: short_name_def Let_def)
next
  case (Cons g pre)
  then show ?case
    by (auto simp: short_name_def Let_def split: sum.splits dest: resolve_adapter_error)
qed

lemma form_fieldsets_fields:
  "iter_fields (get_form_fieldsets e fm) =
     (case form_fields fm of None \<Rightarrow> [] | Some fs \<Rightarrow> fs) @
     concat (map group_fields (case form_groups fm of None \<Rightarrow> [] | Some gs \<Rightarrow> gs))"
  by (simp add: iter_fields_def get_form_fieldsets_def Let_def group_fieldset_def comp_def)

lemma form_fieldsets_ids:
  "map fieldset_id (get_form_fieldsets e fm) =
     (if (case form_fields fm of None \<Rightarrow> [] | Some fs \<Rightarrow> fs) \<noteq> [] then [''default''] else []) @
     map group_name (case form_groups fm of None \<Rightarrow> [] | Some gs \<Rightarrow> gs)"
  by (simp add: get_form_fieldsets_def Let_def group_fieldset_def comp_def)

text \<open>
  C6. Without \<open>fname\<close>, the keys of the returned mapping are the output keys of the
  fields that are not excluded, fieldset by fieldset and in each fieldset in the order of its
  fields, each key at the place of its first insertion; when the short names are distinct
  this is the list of those keys itself. The fieldsets of a form are the fieldset
  \<open>default\<close> with the ungrouped fields, when there are any, followed by one fieldset for
  each group, in the order of the groups; so the fields are traversed default fields first,
  then group by group.
\<close>

theorem properties_in_fieldset_order:
  "(get_jsonschema_properties e fieldsets prefix excluded_fields None = Inr properties \<longrightarrow>
      map fst properties =
        insert_order []
          (map (\<lambda>g. prefixed prefix (short_name g))
             (filter (\<lambda>g. short_name g \<notin> set (excluded_names excluded_fields))
                (concat (map fieldset_fields fieldsets))))
      \<and> (distinct (map short_name (concat (map fieldset_fields fieldsets))) \<longrightarrow>
          map fst properties =
            map (\<lambda>g. prefixed prefix (short_name g))
              (filter (\<lambda>g. short_name g \<notin> set (excluded_names excluded_fields))
                 (concat (map fieldset_fields fieldsets)))))
   \<and> map fieldset_id (get_form_fieldsets e fm) =
       (if (case form_fields fm of None \<Rightarrow> [] | Some fs \<Rightarrow> fs) \<noteq> [] then [''default''] else []) @
       map group_name (case form_groups fm of None \<Rightarrow> [] | Some gs \<Rightarrow> gs)
   \<and> concat (map fieldset_fields (get_form_fieldsets e fm)) =
       (case form_fields fm of None \<Rightarrow> [] | Some fs \<Rightarrow> fs) @
       concat (map group_fields (case form_groups fm of None \<Rightarrow> [] | Some gs \<Rightarrow> gs))"
proof (intro conjI impI)
  let ?fs = "concat (map fieldset_fields fieldsets)"
  let ?ks = "map (\<lambda>g. prefixed prefix (short_name g))
             (filter (\<lambda>g. short_name g \<notin> set (excluded_names excluded_fields)) ?fs)"
  assume r: "get_jsonschema_properties e fieldsets prefix excluded_fields None = Inr properties"
  have "\<forall>g\<in>set ?fs. Some (short_name g) \<noteq> None" by simp
  from loop_order [OF this r [unfolded get_jsonschema_properties_def iter_fields_def]]
  show o: "map fst properties = insert_order [] ?ks" by simp
  assume d: "distinct (map short_name ?fs)"
  have "distinct (map short_name (filter (\<lambda>g. short_name g \<notin> set (excluded_names excluded_fields)) ?fs))"
    using d by (rule distinct_map_filter)
  then have "distinct ?ks"
    by (simp add: distinct_map inj_on_def) (auto dest: prefixed_inj)
  then show "map fst properties = ?ks"
    using o by (simp add: insert_order_distinct)
next
  show "map fieldset_id (get_form_fieldsets e fm) =
       (if (case form_fields fm of None \<Rightarrow> [] | Some fs \<Rightarrow> fs) \<noteq> [] then [''default''] else []) @
       map group_name (case form_groups fm of None \<Rightarrow> [] | Some gs \<Rightarrow> gs)"
    by (rule form_fieldsets_ids)
next
  show "concat (map fieldset_fields (get_form_fieldsets e fm)) =
       (case form_fields fm of None \<Rightarrow> [] | Some fs \<Rightarrow> fs) @
       concat (map group_fields (case form_groups fm of None \<Rightarrow> [] | Some gs \<Rightarrow> gs))"
    using form_fieldsets_fields [of e fm] by (simp add: iter_fields_def)
qed

text \<open>The sample document type: four properties, two fieldsets.\<close>

theorem properties_in_fieldset_order_witness:
  "(\<exists>properties.
      get_jsonschema_properties sample_env document_fieldsets [] None None = Inr properties
      \<and> map fst properties = [''title'', ''summary'', ''notes'', ''relatedItems''])
   \<and> map fieldset_id (get_form_fieldsets sample_env document_form) =
       [''default'', ''categorization'']"
proof -
  have r: "get_jsonschema_properties sample_env document_fieldsets [] None None =
     Inr [(''title'', [(''type'', JStr ''string''), (''title'', JStr ''title'')]),
          (''summary'', [(''type'', JStr ''string''), (''title'', JStr ''summary'')]),
          (''notes'', [(''type'', JStr ''string''), (''title'', JStr ''notes'')]),
          (''relatedItems'', [(''type'', JStr ''array'')])]"
    by (simp add: sample_defs model_defs)
  from properties_in_fieldset_order [where e = sample_env and fieldsets = document_fieldsets
      and prefix = "[]" and excluded_fields = None and fm = document_form
      and properties = "[(''title'', [(''type'', JStr ''string''), (''title'', JStr ''title'')]),
          (''summary'', [(''type'', JStr ''string''), (''title'', JStr ''summary'')]),
          (''notes'', [(''type'', JStr ''string''), (''title'', JStr ''notes'')]),
          (''relatedItems'', [(''type'', JStr ''array'')])]"]
  have ids: "map fieldset_id (get_form_fieldsets sample_env document_form) =
       (if (case form_fields document_form of None \<Rightarrow> [] | Some fs \<Rightarrow> fs) \<noteq> []
        then [''default''] else []) @
       map group_name (case form_groups document_form of None \<Rightarrow> [] | Some gs \<Rightarrow> gs)"
    by blast
  show ?thesis
    using r ids by (simp add: document_form_def)
qed

subsection \<open>Adapter resolution\<close>

lemmas fti_defs = get_jsonschema_for_fti_def lookup_fieldsets_def get_fieldsets_def
  create_form_def get_fieldset_infos_def fieldset_to_info_def IJsonCompatible_def

lemma for_fti_lookup_error:
  "lookup_fieldsets e t = Inl err \<Longrightarrow> get_jsonschema_for_fti e t excluded_fields = Inl err"
  by (simp add: get_jsonschema_for_fti_def)

lemma for_fti_properties_error:
  "lookup_fieldsets e t = Inr fieldsets \<Longrightarrow>
   get_jsonschema_properties e fieldsets [] (Some (excluded_names excluded_fields)) None = Inl err \<Longrightarrow>
   get_jsonschema_for_fti e t excluded_fields = Inl err"
  by (simp add: get_jsonschema_for_fti_def Let_def)

lemma excluded_names_Some [simp]: "excluded_names (Some xs) = xs"
  by (simp add: excluded_names_def)

lemma loop_keeps_other:
  "\<forall>g\<in>set fs. Some (short_name g) \<noteq> fname \<and> short_name g \<noteq> n \<Longrightarrow>
   properties_loop e prefix excl fname fs acc = Inr properties \<Longrightarrow>
   map_of properties (prefixed prefix n) = map_of acc (prefixed prefix n)"
proof (induction fs arbitrary: acc)
  case Nil
  then show ?case by simp
next
  case (Cons g fs)
  from Cons.prems have nomatch: "Some (getName (field g)) \<noteq> fname"
    and other: "getName (field g) \<noteq> n"
    and rest: "\<forall>g\<in>set fs. Some (short_name g) \<noteq> fname \<and> short_name g \<noteq> n"
    by (simp_all add: short_name_def)
  show ?case
  proof (cases "getName (field g) \<in> set excl")
    case True
    with nomatch Cons.prems have "properties_loop e prefix excl fname fs acc = Inr properties"
      by (simp add: Let_def)
    from Cons.IH [OF rest this] show ?thesis .
  next
    case False
    with nomatch Cons.prems obtain a where
      r: "properties_loop e prefix excl fname fs
            (AList.update (prefixed prefix (getName (field g))) (a prefix) acc) = Inr properties"
      by (auto simp: Let_def split: sum.splits)
    have "prefixed prefix (getName (field g)) \<noteq> prefixed prefix n"
      using other by (auto dest: prefixed_inj)
    with Cons.IH [OF rest r] show ?thesis
      by (simp add: AList.update_conv')
  qed
qed

lemma loop_value:
  "\<forall>g\<in>set pre. Some (short_name g) \<noteq> fname \<Longrightarrow>
   Some (short_name f) \<noteq> fname \<Longrightarrow>
   \<forall>g\<in>set post. Some (short_name g) \<noteq> fname \<and> short_name g \<noteq> short_name f \<Longrightarrow>
   short_name f \<notin> set excl \<Longrightarrow>
   resolve_adapter e f = Inr a \<Longrightarrow>
   properties_loop e prefix excl fname (pre @ f # post) acc = Inr properties \<Longrightarrow>
   map_of properties (prefixed prefix (short_name f)) = Some (a prefix)"
proof (induction pre arbitrary: acc)
  case Nil
  then have "properties_loop e prefix excl fname post
      (AList.update (prefixed prefix (short_name f)) (a prefix) acc) = Inr properties"
    by (simp add: short_name_def Let_def)
  from loop_keeps_other [OF Nil.prems(3) this] show ?case
    by (simp add: AList.update_conv')
next
  case (Cons g pre)
  from Cons.prems(1) have nomatch: "Some (getName (field g)) \<noteq> fname"
    and rest: "\<forall>g\<in>set pre. Some (short_name g) \<noteq> fname"
    by (simp_all add: short_name_def)
  show ?case
  proof (cases "getName (field g) \<in> set excl")
    case True
    with nomatch Cons.prems(6)
    have "properties_loop e prefix excl fname (pre @ f # post) acc = Inr properties"
      by (simp add: Let_def)
    from Cons.IH [OF rest Cons.prems(2-5) this] show ?thesis .
  next
    case False
    with nomatch Cons.prems(6) obtain b where
      r: "properties_loop e prefix excl fname (pre @ f # post)
            (AList.update (prefixed prefix (getName (field g))) (b prefix) acc) = Inr properties"
      by (auto simp: Let_def split: sum.splits)
    from Cons.IH [OF rest Cons.prems(2-5) r] show ?thesis .
  qed
qed

lemma loop_match_value:
  "\<forall>g\<in>set pre. Some (short_name g) \<noteq> fname \<Longrightarrow>
   Some (short_name f) = fname \<Longrightarrow>
   resolve_adapter e f = Inr a \<Longrightarrow>
   properties_loop e prefix excl fname (pre @ f # post) acc = Inr properties \<Longrightarrow>
   properties = [(prefixed prefix (short_name f), a prefix)]"
proof (induction pre arbitrary: acc)
  case Nil
  then show ?case by (auto simp: short_name_def Let_def)
next
  case (Cons g pre)
  from Cons.prems(1) have nomatch: "Some (getName (field g)) \<noteq> fname"
    and rest: "\<forall>g\<in>set pre. Some (short_name g) \<noteq> fname"
    by (simp_all add: short_name_def)
  show ?case
  proof (cases "getName (field g) \<in> set excl")
    case True
    with nomatch Cons.prems(4)
    have "properties_loop e prefix excl fname (pre @ f # post) acc = Inr properties"
      by (simp add: Let_def)
    from Cons.IH [OF rest Cons.prems(2,3) this] show ?thesis .
  next
    case False
    with nomatch Cons.prems(4) obtain b where
      r: "properties_loop e prefix excl fname (pre @ f # post)
            (AList.update (prefixed prefix (getName (field g))) (b prefix) acc) = Inr properties"
      by (auto simp: Let_def split: sum.splits)
    from Cons.IH [OF rest Cons.prems(2,3) r] show ?thesis .
  qed
qed

lemma loop_total:
  "\<forall>g\<in>set fs. (short_name g \<in> set excl \<and> Some (short_name g) \<noteq> fname) \<or>
       (\<exists>a. resolve_adapter e g = Inr a) \<Longrightarrow>
   \<exists>properties. properties_loop e prefix excl fname fs acc = Inr properties"
proof (induction fs arbitrary: acc)
  case Nil
  then show ?case by simp
next
  case (Cons g fs)
  then show ?case
    by (auto simp: short_name_def Let_def)
qed

lemma resolve_adapter_registered:
  "registry e (field_type (field f)) (ff_name f) \<noteq> None \<or>
   registry e (field_type (field f)) [] \<noteq> None \<Longrightarrow>
   \<exists>a. resolve_adapter e f = Inr a"
  by (auto simp: resolve_adapter_def split: option.splits)


lemma properties_value:
  assumes "iter_fields fieldsets = pre @ f # post"
    and "\<forall>g\<in>set (iter_fields fieldsets). Some (short_name g) \<noteq> fname"
    and "\<forall>g\<in>set post. short_name g \<noteq> short_name f"
    and "short_name f \<notin> set (excluded_names excluded_fields)"
    and "get_jsonschema_properties e fieldsets prefix excluded_fields fname = Inr properties"
    and "resolve_adapter e f = Inr a"
  shows "map_of properties (prefixed prefix (short_name f)) = Some (a prefix)"
proof -
  from assms(1,2) have "\<forall>g\<in>set pre. Some (short_name g) \<noteq> fname"
    "Some (short_name f) \<noteq> fname" "\<forall>g\<in>set post. Some (short_name g) \<noteq> fname"
    by simp_all
  with assms(3) have "\<forall>g\<in>set pre. Some (short_name g) \<noteq> fname"
    "Some (short_name f) \<noteq> fname"
    "\<forall>g\<in>set post. Some (short_name g) \<noteq> fname \<and> short_name g \<noteq> short_name f"
    by simp_all
  from loop_value [OF this assms(4,6)] assms(1,5) show ?thesis
    by (simp add: get_jsonschema_properties_def del: properties_loop.simps)
qed

lemma properties_match_value:
  assumes "iter_fields fieldsets = pre @ f # post"
    and "\<forall>g\<in>set pre. Some (short_name g) \<noteq> fname"
    and "Some (short_name f) = fname"
    and "get_jsonschema_properties e fieldsets prefix excluded_fields fname = Inr properties"
    and "resolve_adapter e f = Inr a"
  shows "properties = [(prefixed prefix (short_name f), a prefix)]"
  using loop_match_value [OF assms(2,3,5)] assms(1,4)
  by (simp add: get_jsonschema_properties_def del: properties_loop.simps)

lemma properties_total:
  assumes "\<forall>g\<in>set (iter_fields fieldsets).
      (short_name g \<in> set (excluded_names excluded_fields) \<and> Some (short_name g) \<noteq> fname) \<or>
      registry e (field_type (field g)) (ff_name g) \<noteq> None \<or>
      registry e (field_type (field g)) [] \<noteq> None"
  shows "\<exists>properties.
      get_jsonschema_properties e fieldsets prefix excluded_fields fname = Inr properties"
proof -
  from assms have "\<forall>g\<in>set (iter_fields fieldsets).
      (short_name g \<in> set (excluded_names excluded_fields) \<and> Some (short_name g) \<noteq> fname) \<or>
      (\<exists>a. resolve_adapter e g = Inr a)"
    using resolve_adapter_registered by blast
  from loop_total [OF this] show ?thesis
    by (simp add: get_jsonschema_properties_def)
qed

text \<open>
  C7. For a field the loop processes, the adapter registered under the field's
  \<^verbatim>\<open>__name__\<close> is taken when there is one; when there is none, the unnamed adapter for
  the field's type is taken; when there is neither, the lookup fails with
  \<^verbatim>\<open>ComponentLookupError\<close>, and so do \<^verbatim>\<open>get_jsonschema_properties\<close>, for every list of
  fieldsets in which the field is reached (no field before it is \<open>fname\<close>) and
  processed (it is \<open>fname\<close>, or not excluded), and \<^verbatim>\<open>get_jsonschema_for_fti\<close>, for
  every type that has the field and does not exclude it: no document is returned.
  The property that \<^verbatim>\<open>get_jsonschema_properties\<close> returns for the field is the schema of
  that adapter, with the prefix set on it: the named adapter's when one is registered, also
  when an unnamed one is registered too, and the unnamed adapter's otherwise. This holds
  for the property under the field's key in a call without a matching \<open>fname\<close> (no later
  field of the same short name replacing it), and for the single property of a call whose
  \<open>fname\<close> is the field. And the call returns whenever every field it processes has a
  named or an unnamed adapter.
\<close>

theorem adapter_resolution:
  "(registry e (field_type (field f)) (ff_name f) = Some named \<longrightarrow>
      resolve_adapter e f = Inr (named (field f)))
   \<and> (registry e (field_type (field f)) (ff_name f) = None \<and>
       registry e (field_type (field f)) [] = Some unnamed \<longrightarrow>
      resolve_adapter e f = Inr (unnamed (field f)))
   \<and> (registry e (field_type (field f)) (ff_name f) = None \<and>
       registry e (field_type (field f)) [] = None \<longrightarrow>
      resolve_adapter e f = Inl ComponentLookupError
      \<and> (iter_fields fieldsets = pre @ f # post \<and>
          (\<forall>g\<in>set pre. Some (short_name g) \<noteq> fname) \<and>
          (Some (short_name f) = fname \<or> short_name f \<notin> set (excluded_names excluded_fields)) \<longrightarrow>
          get_jsonschema_properties e fieldsets prefix excluded_fields fname =
            Inl ComponentLookupError)
      \<and> (lookup_fieldsets e t = Inr fieldsets \<and> iter_fields fieldsets = pre @ f # post \<and>
          short_name f \<notin> set (excluded_names excluded_fields) \<longrightarrow>
          get_jsonschema_for_fti e t excluded_fields = Inl ComponentLookupError))
   \<and> (iter_fields fieldsets = pre @ f # post \<and>
       (\<forall>g\<in>set (iter_fields fieldsets). Some (short_name g) \<noteq> fname) \<and>
       (\<forall>g\<in>set post. short_name g \<noteq> short_name f) \<and>
       short_name f \<notin> set (excluded_names excluded_fields) \<and>
       get_jsonschema_properties e fieldsets prefix excluded_fields fname = Inr properties \<longrightarrow>
         (registry e (field_type (field f)) (ff_name f) = Some named \<longrightarrow>
            map_of properties (prefixed prefix (short_name f)) = Some (named (field f) prefix))
       \<and> (registry e (field_type (field f)) (ff_name f) = None \<and>
          registry e (field_type (field f)) [] = Some unnamed \<longrightarrow>
            map_of properties (prefixed prefix (short_name f)) = Some (unnamed (field f) prefix)))
   \<and> (iter_fields fieldsets = pre @ f # post \<and>
       (\<forall>g\<in>set pre. Some (short_name g) \<noteq> fname) \<and> Some (short_name f) = fname \<and>
       get_jsonschema_properties e fieldsets prefix excluded_fields fname = Inr properties \<longrightarrow>
         (registry e (field_type (field f)) (ff_name f) = Some named \<longrightarrow>
            properties = [(prefixed prefix (short_name f), named (field f) prefix)])
       \<and> (registry e (field_type (field f)) (ff_name f) = None \<and>
          registry e (field_type (field f)) [] = Some unnamed \<longrightarrow>
            properties = [(prefixed prefix (short_name f), unnamed (field f) prefix)]))
   \<and> ((\<forall>g\<in>set (iter_fields fieldsets).
          (short_name g \<in> set (excluded_names excluded_fields) \<and> Some (short_name g) \<noteq> fname) \<or>
          registry e (field_type (field g)) (ff_name g) \<noteq> None \<or>
          registry e (field_type (field g)) [] \<noteq> None) \<longrightarrow>
       (\<exists>ps. get_jsonschema_properties e fieldsets prefix excluded_fields fname = Inr ps))"
proof -
  have named: "resolve_adapter e f = Inr (named (field f))"
    if "registry e (field_type (field f)) (ff_name f) = Some named"
    using that by (simp add: resolve_adapter_def)
  have unnamed: "resolve_adapter e f = Inr (unnamed (field f))"
    if "registry e (field_type (field f)) (ff_name f) = None \<and>
       registry e (field_type (field f)) [] = Some unnamed"
    using that by (simp add: resolve_adapter_def)
  have none: "resolve_adapter e f = Inl ComponentLookupError"
    if "registry e (field_type (field f)) (ff_name f) = None \<and>
       registry e (field_type (field f)) [] = None"
    using that by (simp add: resolve_adapter_def)
  have err1: "get_jsonschema_properties e fieldsets prefix excluded_fields fname =
            Inl ComponentLookupError"
    if "registry e (field_type (field f)) (ff_name f) = None \<and>
       registry e (field_type (field f)) [] = None"
      and "iter_fields fieldsets = pre @ f # post \<and>
          (\<forall>g\<in>set pre. Some (short_name g) \<noteq> fname) \<and>
          (Some (short_name f) = fname \<or> short_name f \<notin> set (excluded_names excluded_fields))"
    using loop_error [OF _ _ none [OF that(1)], of pre fname "excluded_names excluded_fields"
        prefix post "[]"] that(2)
    by (simp add: get_jsonschema_properties_def)
  have err2: "get_jsonschema_for_fti e t excluded_fields = Inl ComponentLookupError"
    if n: "registry e (field_type (field f)) (ff_name f) = None \<and>
       registry e (field_type (field f)) [] = None"
      and h: "lookup_fieldsets e t = Inr fieldsets \<and> iter_fields fieldsets = pre @ f # post \<and>
          short_name f \<notin> set (excluded_names excluded_fields)"
  proof -
    have "get_jsonschema_properties e fieldsets [] (Some (excluded_names excluded_fields)) None =
        Inl ComponentLookupError"
      using loop_error [OF _ _ none [OF n], of pre None "excluded_names excluded_fields" "[]"
          post "[]"] h
      by (simp add: get_jsonschema_properties_def)
    with h show ?thesis
      by (simp add: for_fti_properties_error)
  qed
  have val: "map_of properties (prefixed prefix (short_name f)) = Some (a prefix)"
    if "iter_fields fieldsets = pre @ f # post \<and>
       (\<forall>g\<in>set (iter_fields fieldsets). Some (short_name g) \<noteq> fname) \<and>
       (\<forall>g\<in>set post. short_name g \<noteq> short_name f) \<and>
       short_name f \<notin> set (excluded_names excluded_fields) \<and>
       get_jsonschema_properties e fieldsets prefix excluded_fields fname = Inr properties"
      and "resolve_adapter e f = Inr a" for a
    using that properties_value [where fieldsets = fieldsets and pre = pre and f = f
        and post = post and fname = fname and excluded_fields = excluded_fields and e = e
        and prefix = prefix and properties = properties and a = a]
    by blast
  have mval: "properties = [(prefixed prefix (short_name f), a prefix)]"
    if "iter_fields fieldsets = pre @ f # post \<and>
       (\<forall>g\<in>set pre. Some (short_name g) \<noteq> fname) \<and> Some (short_name f) = fname \<and>
       get_jsonschema_properties e fieldsets prefix excluded_fields fname = Inr properties"
      and "resolve_adapter e f = Inr a" for a
    using that properties_match_value [where fieldsets = fieldsets and pre = pre and f = f
        and post = post and fname = fname and excluded_fields = excluded_fields and e = e
        and prefix = prefix and properties = properties and a = a]
    by blast
  show ?thesis
    using named unnamed none err1 err2 val mval
      properties_total [of fieldsets excluded_fields fname e prefix]
    by (intro conjI impI) blast+
qed

text \<open>
  The sample registry has a named adapter for \<open>relatedItems\<close> and an unnamed one for
  relation lists, an unnamed one for text lines and none for object fields; the sample
  file type has an object field. The property of \<open>relatedItems\<close> is the named
  adapter's, without the choices.
\<close>

theorem adapter_resolution_witness:
  "resolve_adapter sample_env related_field = Inr (related_schema (field related_field))
   \<and> resolve_adapter sample_env title_field = Inr (text_schema (field title_field))
   \<and> resolve_adapter sample_env object_field = Inl ComponentLookupError
   \<and> get_jsonschema_properties sample_env
        (get_form_fieldsets sample_env file_form) [] None None = Inl ComponentLookupError
   \<and> get_jsonschema_for_fti sample_env (sample_fti ''File'' ''IFile'') None =
        Inl ComponentLookupError
   \<and> registry sample_env ''RelationList'' ''relatedItems'' = Some related_schema
   \<and> registry sample_env ''RelationList'' [] = Some choices_schema
   \<and> (\<exists>properties.
        get_jsonschema_properties sample_env document_fieldsets [] None None = Inr properties
        \<and> map_of properties ''relatedItems'' = Some [(''type'', JStr ''array'')]
        \<and> map_of properties ''title'' =
            Some [(''type'', JStr ''string''), (''title'', JStr ''title'')])
   \<and> get_jsonschema_properties sample_env document_fieldsets [] None (Some ''relatedItems'') =
        Inr [(''relatedItems'', [(''type'', JStr ''array'')])]"
proof -
  have fs: "lookup_fieldsets sample_env (sample_fti ''File'' ''IFile'') =
      Inr (get_form_fieldsets sample_env file_form)"
    by (simp add: fti_defs sample_defs)
  have it: "iter_fields (get_form_fieldsets sample_env file_form) = [title_field] @ object_field # []"
    by (simp add: sample_defs model_defs)
  have 1: "resolve_adapter sample_env related_field = Inr (related_schema (field related_field))"
    using adapter_resolution [where e = sample_env and f = related_field and named = related_schema]
    by (simp add: sample_defs)
  have 2: "resolve_adapter sample_env title_field = Inr (text_schema (field title_field))"
    using adapter_resolution [where e = sample_env and f = title_field and unnamed = text_schema]
    by (simp add: sample_defs)
  have 3: "resolve_adapter sample_env object_field = Inl ComponentLookupError
     \<and> get_jsonschema_properties sample_env
        (get_form_fieldsets sample_env file_form) [] None None = Inl ComponentLookupError
     \<and> get_jsonschema_for_fti sample_env (sample_fti ''File'' ''IFile'') None =
        Inl ComponentLookupError"
    using adapter_resolution [where e = sample_env and f = object_field
        and fieldsets = "get_form_fieldsets sample_env file_form" and pre = "[title_field]"
        and post = "[]" and fname = None and excluded_fields = None and prefix = "[]"
        and t = "sample_fti ''File'' ''IFile''"] fs it
    by (simp add: sample_defs short_name_def excluded_names_def)
  have reg: "registry sample_env ''RelationList'' ''relatedItems'' = Some related_schema"
    "registry sample_env ''RelationList'' [] = Some choices_schema"
    "registry sample_env ''TextLine'' ''title'' = None"
    "registry sample_env ''TextLine'' [] = Some text_schema"
    by (simp_all add: sample_env_def sample_registry_def)
  have ft: "field_type (field related_field) = ''RelationList''"
    "ff_name related_field = ''relatedItems''" "short_name related_field = ''relatedItems''"
    "field_type (field title_field) = ''TextLine''"
    "ff_name title_field = ''title''" "short_name title_field = ''title''"
    by (simp_all add: related_field_def title_field_def sample_field_def short_name_def)
  have d: "iter_fields document_fieldsets =
      [title_field, summary_field, notes_field] @ related_field # []"
    "iter_fields document_fieldsets = [] @ title_field # [summary_field, notes_field, related_field]"
    by (simp_all add: sample_defs model_defs)
  have all: "\<forall>g\<in>set (iter_fields document_fieldsets).
      (short_name g \<in> set (excluded_names None) \<and> Some (short_name g) \<noteq> None) \<or>
      registry sample_env (field_type (field g)) (ff_name g) \<noteq> None \<or>
      registry sample_env (field_type (field g)) [] \<noteq> None"
    unfolding d(1) by (simp add: sample_defs)
  from adapter_resolution [where e = sample_env and fieldsets = document_fieldsets
      and excluded_fields = None and fname = None and prefix = "[]"] all
  obtain properties where
    p: "get_jsonschema_properties sample_env document_fieldsets [] None None = Inr properties"
    by blast
  have side: "\<forall>g\<in>set (iter_fields document_fieldsets). Some (short_name g) \<noteq> None"
    "\<forall>g\<in>set []. short_name g \<noteq> short_name related_field"
    "\<forall>g\<in>set [summary_field, notes_field, related_field]. short_name g \<noteq> short_name title_field"
    "short_name related_field \<notin> set (excluded_names None)"
    "short_name title_field \<notin> set (excluded_names None)"
    by (simp_all add: sample_defs short_name_def excluded_names_def)
  have r: "map_of properties (prefixed [] (short_name related_field)) =
      Some (related_schema (field related_field) [])"
    using adapter_resolution [where e = sample_env and fieldsets = document_fieldsets
      and excluded_fields = None and fname = None and prefix = "[]" and f = related_field
      and pre = "[title_field, summary_field, notes_field]" and post = "[]"
      and properties = properties and named = related_schema] d(1) p side reg ft
    by simp
  have t: "map_of properties (prefixed [] (short_name title_field)) =
      Some (text_schema (field title_field) [])"
    using adapter_resolution [where e = sample_env and fieldsets = document_fieldsets
      and excluded_fields = None and fname = None and prefix = "[]" and f = title_field
      and pre = "[]" and post = "[summary_field, notes_field, related_field]"
      and properties = properties and unnamed = text_schema] d(2) p side reg ft
    by simp
  have "\<exists>ps. get_jsonschema_properties sample_env document_fieldsets [] None
      (Some ''relatedItems'') = Inr ps"
    by (simp add: sample_defs model_defs)
  then obtain ps where
    q: "get_jsonschema_properties sample_env document_fieldsets [] None (Some ''relatedItems'') =
        Inr ps"
    by blast
  have mside: "\<forall>g\<in>set [title_field, summary_field, notes_field].
      Some (short_name g) \<noteq> Some ''relatedItems''"
    by (simp add: sample_defs short_name_def)
  have m: "ps = [(prefixed [] (short_name related_field), related_schema (field related_field) [])]"
    using adapter_resolution [where e = sample_env and fieldsets = document_fieldsets
      and excluded_fields = None and fname = "Some ''relatedItems''" and prefix = "[]"
      and f = related_field
      and pre = "[title_field, summary_field, notes_field]" and post = "[]"
      and properties = ps and named = related_schema] d(1) q mside reg ft
    by simp
  from r t m have v: "map_of properties ''relatedItems'' = Some [(''type'', JStr ''array'')]"
    "map_of properties ''title'' = Some [(''type'', JStr ''string''), (''title'', JStr ''title'')]"
    "ps = [(''relatedItems'', [(''type'', JStr ''array'')])]"
    by (simp_all add: ft prefixed_def related_schema_def text_schema_def)
       (simp add: title_field_def sample_field_def)
  from 1 2 3 reg(1,2) p v q show ?thesis
    by blast
qed

subsection \<open>Types without a schema\<close>

text \<open>
  C4. When \<^verbatim>\<open>fti.lookupSchema()\<close> raises \<^verbatim>\<open>AttributeError\<close>,
  \<^verbatim>\<open>get_jsonschema_for_fti\<close> returns a document: no properties, no required names, no
  fieldsets, the translated title of the type and its view methods.
\<close>

theorem schemaless_type_document:
  "lookupSchema t = Inl AttributeError \<Longrightarrow>
   get_jsonschema_for_fti e t excluded_fields =
     Inr \<lparr>doc_type = ''object'', doc_title = translate e (Title t) None None, doc_properties = [],
          doc_required = [], doc_fieldsets = [],
          doc_layouts = (case view_methods t of None \<Rightarrow> [] | Some vs \<Rightarrow> vs)\<rparr>"
  by (simp add: fti_defs get_jsonschema_properties_def iter_fields_def)

text \<open>The sample site type.\<close>

theorem schemaless_type_document_witness:
  "lookupSchema site_fti = Inl AttributeError
   \<and> get_jsonschema_for_fti sample_env site_fti None =
     Inr \<lparr>doc_type = ''object'', doc_title = ''Plone Site'', doc_properties = [],
          doc_required = [], doc_fieldsets = [], doc_layouts = [''listing_view'']\<rparr>"
  using schemaless_type_document [of site_fti sample_env None]
  by (simp add: site_fti_def sample_env_def)

subsection \<open>Required fields\<close>

lemma required_loop_eq:
  "required_loop fs req = req @ map short_name (filter (\<lambda>f. required (field f)) fs)"
  by (induction fs arbitrary: req) (simp_all add: short_name_def)

lemma for_fti_required:
  "lookup_fieldsets e t = Inr fieldsets \<Longrightarrow>
   get_jsonschema_for_fti e t excluded_fields = Inr doc \<Longrightarrow>
   doc_required doc = required_loop (iter_fields fieldsets) []"
  by (auto simp: get_jsonschema_for_fti_def Let_def split: sum.splits)

text \<open>
  C5, as the code has it. Whenever \<^verbatim>\<open>get_jsonschema_for_fti\<close> returns a document, its
  \<^verbatim>\<open>required\<close> list holds the short (unprefixed) name of every field whose
  \<^verbatim>\<open>required\<close> flag is set, one entry for each such field, in the order of the traversal.
  As a set it is the set of the names of the required fields; it depends on the fieldsets
  only, not on a prefix or on \<open>excluded_fields\<close>; it has no duplicates when the short
  names of the fields are distinct.
\<close>

theorem required_list:
  "lookup_fieldsets e t = Inr fieldsets \<Longrightarrow>
   get_jsonschema_for_fti e t excluded_fields = Inr doc \<Longrightarrow>
   doc_required doc = map short_name (filter (\<lambda>f. required (field f)) (iter_fields fieldsets))
   \<and> set (doc_required doc) =
       short_name ` {f \<in> set (iter_fields fieldsets). required (field f)}
   \<and> (distinct (map short_name (iter_fields fieldsets)) \<longrightarrow> distinct (doc_required doc))"
proof -
  assume "lookup_fieldsets e t = Inr fieldsets"
    and "get_jsonschema_for_fti e t excluded_fields = Inr doc"
  then have r: "doc_required doc =
      map short_name (filter (\<lambda>f. required (field f)) (iter_fields fieldsets))"
    by (simp add: for_fti_required required_loop_eq)
  then show ?thesis
    by (auto simp: distinct_map_filter)
qed

text \<open>The sample document type: \<open>title\<close> is its one required field.\<close>

theorem required_list_witness:
  "lookup_fieldsets sample_env (sample_fti ''Document'' ''IDocument'') = Inr document_fieldsets
   \<and> (\<exists>doc. get_jsonschema_for_fti sample_env (sample_fti ''Document'' ''IDocument'')
               (Some [''summary'']) = Inr doc
        \<and> doc_required doc = [''title''] \<and> distinct (doc_required doc))"
proof -
  have fs: "lookup_fieldsets sample_env (sample_fti ''Document'' ''IDocument'') =
      Inr document_fieldsets"
    by (simp add: fti_defs sample_defs)
  have "\<exists>doc. get_jsonschema_for_fti sample_env (sample_fti ''Document'' ''IDocument'')
               (Some [''summary'']) = Inr doc"
    by (simp add: fti_defs sample_defs model_defs)
  then obtain doc where
    d: "get_jsonschema_for_fti sample_env (sample_fti ''Document'' ''IDocument'')
               (Some [''summary'']) = Inr doc"
    by blast
  from required_list [OF fs d]
  have "doc_required doc = [''title''] \<and> distinct (doc_required doc)"
    by (simp add: sample_defs model_defs)
  with fs d show ?thesis by blast
qed

text \<open>
  The claim as stated fails: the sample event type has the required field \<open>title\<close> in
  its default fieldset and a required field of the same short name, contributed under the
  name \<open>IOther.title\<close>, in a group; the name is listed twice.
\<close>

theorem required_duplicates_counterexample:
  "\<exists>doc. get_jsonschema_for_fti sample_env (sample_fti ''Event'' ''IEvent'') None = Inr doc
     \<and> doc_required doc = [''title'', ''title''] \<and> \<not> distinct (doc_required doc)"
  by (simp add: fti_defs sample_defs model_defs)

subsection \<open>The single-field query: no match\<close>

lemma info_fields_none:
  "\<forall>f\<in>set fs. short_name f \<noteq> N \<Longrightarrow> info_fields e fieldset N fs = None"
  by (induction fs) (simp_all add: short_name_def)

lemma info_fieldsets_none:
  "\<forall>fs\<in>set fieldsets. fieldset_id fs \<noteq> N \<and> (\<forall>f\<in>set (fieldset_fields fs). short_name f \<noteq> N) \<Longrightarrow>
   info_fieldsets e N fieldsets = Inr not_found"
  by (induction fieldsets) (simp_all add: info_fields_none)

lemma schemaless_fieldsets: "lookupSchema t = Inl AttributeError \<Longrightarrow> lookup_fieldsets e t = Inr []"
  by (simp add: lookup_fieldsets_def)

text \<open>
  C9. For a type the types tool has and whose fieldsets are found (none, when the type
  has no schema), a name that is the id of no fieldset and the name of no field is answered
  with the not-found message, as a value: nothing is raised.
\<close>

theorem unknown_name_not_found:
  "portal_types e portal_type = Some t \<Longrightarrow>
   lookup_fieldsets e t = Inr fieldsets \<Longrightarrow>
   \<forall>fs\<in>set fieldsets. fieldset_id fs \<noteq> N \<and> (\<forall>f\<in>set (fieldset_fields fs). short_name f \<noteq> N) \<Longrightarrow>
   get_info_for_field e portal_type N =
     Inr (JObj [(''message'', JStr ''No entry could be found for the supplied name.'')])"
  by (simp add: get_info_for_field_def info_fieldsets_none not_found_def)

text \<open>The sample document type, and the sample site type, which has no schema.\<close>

theorem unknown_name_not_found_witness:
  "get_info_for_field sample_env ''Document'' ''nonexistent'' =
     Inr (JObj [(''message'', JStr ''No entry could be found for the supplied name.'')])
   \<and> get_info_for_field sample_env ''Plone Site'' ''title'' =
     Inr (JObj [(''message'', JStr ''No entry could be found for the supplied name.'')])"
proof -
  have p1: "portal_types sample_env ''Document'' = Some (sample_fti ''Document'' ''IDocument'')"
    by (simp add: sample_env_def)
  have f1: "lookup_fieldsets sample_env (sample_fti ''Document'' ''IDocument'') = Inr document_fieldsets"
    by (simp add: fti_defs sample_defs)
  have n1: "\<forall>fs\<in>set document_fieldsets. fieldset_id fs \<noteq> ''nonexistent'' \<and>
      (\<forall>f\<in>set (fieldset_fields fs). short_name f \<noteq> ''nonexistent'')"
    by (simp add: sample_defs model_defs)
  have p2: "portal_types sample_env ''Plone Site'' = Some site_fti"
    by (simp add: sample_env_def)
  have f2: "lookup_fieldsets sample_env site_fti = Inr []"
    by (simp add: schemaless_fieldsets site_fti_def)
  from unknown_name_not_found [OF p1 f1 n1] unknown_name_not_found [OF p2 f2]
  show ?thesis by simp
qed

subsection \<open>The single-field query: the first match\<close>

lemma info_fields_first:
  "fs = before @ f # after \<Longrightarrow> \<forall>g\<in>set before. short_name g \<noteq> N \<Longrightarrow> short_name f = N \<Longrightarrow>
   info_fields e fieldset N fs = Some (field_info e fieldset f N)"
  by (induction before arbitrary: fs) (auto simp: short_name_def)

lemma info_fieldsets_skip:
  "\<forall>g\<in>set pre. fieldset_id g \<noteq> N \<and> (\<forall>f\<in>set (fieldset_fields g). short_name f \<noteq> N) \<Longrightarrow>
   info_fieldsets e N (pre @ rest) = info_fieldsets e N rest"
  by (induction pre) (simp_all add: info_fields_none)

lemma field_info_found:
  assumes fs: "fieldset_fields fs = before @ f # after"
    and before: "\<forall>g\<in>set before. short_name g \<noteq> N \<and> (\<exists>b. resolve_adapter e g = Inr b)"
    and f: "short_name f = N" and a: "resolve_adapter e f = Inr a"
  shows "field_info e fs f N = Inr (JObj [(N, JObj (decorate (field f) (a [])))])"
proof -
  from before have "\<forall>g\<in>set before. Some (short_name g) \<noteq> Some N \<and>
      (short_name g \<in> set [] \<or> (\<exists>b. resolve_adapter e g = Inr b))"
    by simp
  from loop_skip_prefix [OF this]
  obtain acc' where "properties_loop e [] [] (Some N) (before @ f # after) [] =
      properties_loop e [] [] (Some N) (f # after) acc'"
    by blast
  also have "\<dots> = Inr [(prefixed [] N, a [])]"
    using f a by (rule loop_match)
  finally have "get_jsonschema_properties e [fs] [] None (Some N) = Inr [(N, a [])]"
    using fs by (simp add: get_jsonschema_properties_def iter_fields_def excluded_names_def
        prefixed_def del: properties_loop.simps)
  then show ?thesis
    by (simp add: field_info_def IJsonCompatible_def props_json_def)
qed

lemma field_info_not_summary: "field_info e fs f N \<noteq> Inr (info_json i)"
proof
  assume h: "field_info e fs f N = Inr (info_json i)"
  then obtain properties p where
    "props_json (AList.update N (decorate (field f) p) properties) = info_json i"
    by (auto simp: field_info_def IJsonCompatible_def split: sum.splits option.splits)
  moreover obtain k q rest where "AList.update N (decorate (field f) p) properties = (k, q) # rest"
    by (cases "AList.update N (decorate (field f) p) properties") auto
  ultimately show False
    by (simp add: props_json_def info_json_def)
qed

text \<open>
  C10. The fieldsets are gone through in order, and in each the id is compared first and
  then the names of its fields. So when the first match for \<open>N\<close> is a field \<open>f\<close> (no
  fieldset up to and including the one of \<open>f\<close> has the id \<open>N\<close>, and no field before
  \<open>f\<close> has the name \<open>N\<close>), the query takes the branch of that field, whatever follows:
  its result is not the summary of a later fieldset whose id is \<open>N\<close>, and it is the
  decorated property of \<open>f\<close> when the adapters of \<open>f\<close> and of the fields before it in
  its fieldset are found.
\<close>

theorem field_before_fieldset_id:
  assumes pt: "portal_types e portal_type = Some t"
    and fss: "lookup_fieldsets e t = Inr (pre @ fs # post)"
    and pre: "\<forall>g\<in>set pre. fieldset_id g \<noteq> N \<and> (\<forall>h\<in>set (fieldset_fields g). short_name h \<noteq> N)"
    and fs: "fieldset_id fs \<noteq> N" "fieldset_fields fs = before @ f # after"
    and f: "\<forall>g\<in>set before. short_name g \<noteq> N" "short_name f = N"
    and later: "later \<in> set post" "fieldset_id later = N"
  shows "get_info_for_field e portal_type N = field_info e fs f N
    \<and> get_info_for_field e portal_type N \<noteq> Inr (info_json (hd (get_fieldset_infos [later])))
    \<and> ((\<forall>g\<in>set before. \<exists>b. resolve_adapter e g = Inr b) \<and> resolve_adapter e f = Inr a \<longrightarrow>
        get_info_for_field e portal_type N =
          Inr (JObj [(N, JObj (decorate (field f) (a [])))]))"
proof -
  have "info_fieldsets e N (pre @ fs # post) = info_fieldsets e N (fs # post)"
    using pre by (rule info_fieldsets_skip)
  also have "\<dots> = field_info e fs f N"
    using fs f by (simp add: info_fields_first [where before = before and after = after])
  finally have r: "get_info_for_field e portal_type N = field_info e fs f N"
    using pt fss by (simp add: get_info_for_field_def)
  moreover have "(\<forall>g\<in>set before. \<exists>b. resolve_adapter e g = Inr b) \<and> resolve_adapter e f = Inr a \<longrightarrow>
      field_info e fs f N = Inr (JObj [(N, JObj (decorate (field f) (a [])))])"
    using fs f by (auto intro!: field_info_found)
  ultimately show ?thesis
    by (simp add: field_info_not_summary)
qed

text \<open>
  The sample folder type has the field \<open>ownership\<close> in its default fieldset, followed by
  a group whose id is \<open>ownership\<close>.
\<close>

theorem field_before_fieldset_id_witness:
  "get_info_for_field sample_env ''Folder'' ''ownership'' =
     Inr (JObj [(''ownership'',
        JObj [(''type'', JStr ''string''), (''title'', JStr ''ownership''),
              (''default'', JNull), (''defaultFactory'', JNull),
              (''interface'', JStr ''None''), (''max_length'', JNull),
              (''min_length'', JNull), (''missing_value'', JNull),
              (''order'', JNull), (''readonly'', JBool False),
              (''required'', JBool False)])])
   \<and> get_info_for_field sample_env ''Folder'' ''ownership'' \<noteq>
     Inr (JObj [(''id'', JStr ''ownership''), (''title'', JStr ''Ownership''),
                (''fields'', JArr [JStr ''summary''])])"
proof -
  let ?d = "\<lparr>fieldset_id = ''default'', fieldset_title = ''Default'',
             fieldset_fields = [title_field, ownership_field]\<rparr>"
  let ?g = "\<lparr>fieldset_id = ''ownership'', fieldset_title = ''Ownership'',
             fieldset_fields = [summary_field]\<rparr>"
  have pt: "portal_types sample_env ''Folder'' = Some (sample_fti ''Folder'' ''IFolder'')"
    by (simp add: sample_env_def)
  have fss: "lookup_fieldsets sample_env (sample_fti ''Folder'' ''IFolder'') = Inr ([] @ ?d # [?g])"
    by (simp add: fti_defs sample_defs model_defs)
  have a: "resolve_adapter sample_env title_field = Inr (text_schema (field title_field))"
    "resolve_adapter sample_env ownership_field = Inr (text_schema (field ownership_field))"
    by (simp_all add: sample_defs resolve_adapter_def)
  have b: "\<forall>g\<in>set [title_field]. short_name g \<noteq> ''ownership''"
    "short_name ownership_field = ''ownership''"
    by (simp_all add: short_name_def title_field_def ownership_field_def sample_field_def)
  have l: "?g \<in> set [?g]" "fieldset_id ?g = ''ownership''"
    by simp_all
  have p1: "\<forall>g\<in>set []. fieldset_id g \<noteq> ''ownership'' \<and>
      (\<forall>h\<in>set (fieldset_fields g). short_name h \<noteq> ''ownership'')"
    by simp
  have p2: "fieldset_id ?d \<noteq> ''ownership''"
    by simp
  have p3: "fieldset_fields ?d = [title_field] @ ownership_field # []"
    by simp
  have ra: "(\<forall>g\<in>set [title_field]. \<exists>b. resolve_adapter sample_env g = Inr b) \<and>
      resolve_adapter sample_env ownership_field = Inr (text_schema (field ownership_field))"
    using a by simp
  have "get_info_for_field sample_env ''Folder'' ''ownership'' =
      Inr (JObj [(''ownership'',
          JObj (decorate (field ownership_field) (text_schema (field ownership_field) [])))])
    \<and> get_info_for_field sample_env ''Folder'' ''ownership'' \<noteq>
      Inr (info_json (hd (get_fieldset_infos [?g])))"
    using field_before_fieldset_id [OF pt fss p1 p2 p3 b l,
        where a = "text_schema (field ownership_field)"] ra
    by blast
  then show ?thesis
    by (simp add: decorate_def info_json_def get_fieldset_infos_def fieldset_to_info_def
        sample_defs)
qed

subsection \<open>Field modes\<close>

lemma set_insert_order: "set (insert_order seen ks) = set seen \<union> set ks"
  by (induction ks arbitrary: seen) (auto simp: insert_order_Cons insert_order_Nil)

lemma loop_succeeds:
  "\<forall>g\<in>set fs. short_name g \<in> set excl \<or> (\<exists>a. resolve_adapter e g = Inr a) \<Longrightarrow>
   \<exists>properties. properties_loop e prefix excl None fs acc = Inr properties"
proof -
  assume "\<forall>g\<in>set fs. short_name g \<in> set excl \<or> (\<exists>a. resolve_adapter e g = Inr a)"
  then have "\<forall>g\<in>set fs. Some (short_name g) \<noteq> None \<and>
      (short_name g \<in> set excl \<or> (\<exists>a. resolve_adapter e g = Inr a))"
    by simp
  from loop_skip_prefix [OF this, of prefix "[]" acc] show ?thesis
    by simp
qed

lemma include_modes_keys:
  "include_modes fs properties = Inr properties' \<Longrightarrow> map fst properties' = map fst properties"
proof (induction fs arbitrary: properties)
  case Nil
  then show ?case by simp
next
  case (Cons f fs)
  show ?case
  proof (cases "truthy_mode f")
    case None
    with Cons.prems have "include_modes fs properties = Inr properties'"
      by (auto simp: truthy_mode_def split: option.splits if_splits)
    then show ?thesis by (rule Cons.IH)
  next
    case (Some m)
    with Cons.prems obtain p where p: "map_of properties (getName (field f)) = Some p"
      and r: "include_modes fs
           (AList.update (getName (field f)) (AList.update ''mode'' (JStr m) p) properties) =
           Inr properties'"
      by (auto simp: truthy_mode_def split: option.splits if_splits)
    from p have "getName (field f) \<in> set (map fst properties)"
      by (metis domI dom_map_of_conv_image_fst set_map)
    with Cons.IH [OF r] show ?thesis
      by (simp add: AList.update_keys)
  qed
qed

lemma include_modes_succeeds:
  "\<forall>f\<in>set fs. truthy_mode f \<noteq> None \<longrightarrow> short_name f \<in> fst ` set properties \<Longrightarrow>
   \<exists>properties'. include_modes fs properties = Inr properties'"
proof (induction fs arbitrary: properties)
  case Nil
  then show ?case by simp
next
  case (Cons f fs)
  show ?case
  proof (cases "truthy_mode f")
    case None
    then have "include_modes (f # fs) properties = include_modes fs properties"
      by (auto simp: truthy_mode_def split: option.splits if_splits)
    with Cons show ?thesis by simp
  next
    case (Some m)
    with Cons.prems have "short_name f \<in> fst ` set properties" by simp
    then obtain p where p: "map_of properties (getName (field f)) = Some p"
      by (metis short_name_def domD dom_map_of_conv_image_fst)
    let ?q = "AList.update (getName (field f)) (AList.update ''mode'' (JStr m) p) properties"
    from Some p have "include_modes (f # fs) properties = include_modes fs ?q"
      by (auto simp: truthy_mode_def split: option.splits if_splits)
    moreover have "\<forall>g\<in>set fs. truthy_mode g \<noteq> None \<longrightarrow> short_name g \<in> fst ` set ?q"
      using Cons.prems by (simp add: AList.dom_update)
    ultimately show ?thesis
      using Cons.IH [of ?q] by simp
  qed
qed

lemma include_modes_values:
  "include_modes fs properties = Inr properties' \<Longrightarrow>
   map_of properties' n =
     (case last_mode n fs of
        None \<Rightarrow> map_of properties n
      | Some m \<Rightarrow> map_option (AList.update ''mode'' (JStr m)) (map_of properties n))"
proof (induction fs arbitrary: properties)
  case Nil
  then show ?case by simp
next
  case (Cons f fs)
  show ?case
  proof (cases "truthy_mode f")
    case None
    with Cons.prems have "include_modes fs properties = Inr properties'"
      by (auto simp: truthy_mode_def split: option.splits if_splits)
    from Cons.IH [OF this] None show ?thesis
      by (simp split: option.splits)
  next
    case (Some m)
    with Cons.prems obtain p where p: "map_of properties (getName (field f)) = Some p"
      and r: "include_modes fs
           (AList.update (getName (field f)) (AList.update ''mode'' (JStr m) p) properties) =
           Inr properties'"
      by (auto simp: truthy_mode_def split: option.splits if_splits)
    from Cons.IH [OF r] Some p show ?thesis
      by (auto simp: AList.update_conv' short_name_def split: option.splits)
  qed
qed

lemma last_mode_absent: "n \<notin> short_name ` set fs \<Longrightarrow> last_mode n fs = None"
  by (induction fs) auto

lemma last_mode_SomeD:
  "last_mode n fs = Some m \<Longrightarrow> \<exists>f\<in>set fs. short_name f = n \<and> truthy_mode f = Some m"
  by (induction fs) (auto split: option.splits if_splits)

lemma last_mode_distinct:
  "distinct (map short_name fs) \<Longrightarrow> f \<in> set fs \<Longrightarrow> last_mode (short_name f) fs = truthy_mode f"
proof (induction fs)
  case Nil
  then show ?case by simp
next
  case (Cons g fs)
  show ?case
  proof (cases "f = g")
    case True
    with Cons.prems have "last_mode (short_name f) fs = None"
      by (intro last_mode_absent) auto
    with True show ?thesis by simp
  next
    case False
    with Cons.prems have "f \<in> set fs" "short_name g \<noteq> short_name f" "distinct (map short_name fs)"
      by auto
    with Cons.IH show ?thesis
      by (simp split: option.splits)
  qed
qed

text \<open>
  C3, as the code has it. When the fieldsets of the type are found, every field that is not
  excluded has an adapter, and no field that has a mode is excluded,
  \<^verbatim>\<open>get_jsonschema_for_fti\<close> returns a document. The mode pass leaves the keys of the
  properties and their order as \<^verbatim>\<open>get_jsonschema_properties\<close> gave them. The property of
  a name carries, under \<open>mode\<close>, the mode of the last field of that name that has a mode
  (a mode counts when it is a non-empty string); the property of a name none of whose
  fields has a mode is the one \<^verbatim>\<open>get_jsonschema_properties\<close> gave, nothing added. When
  the short names are distinct, the property of every field with a mode carries that
  field's own mode.
\<close>

theorem field_modes_attached:
  assumes fss: "lookup_fieldsets e t = Inr fieldsets"
    and ad: "\<forall>f\<in>set (iter_fields fieldsets).
        short_name f \<in> set (excluded_names excluded_fields) \<or> (\<exists>a. resolve_adapter e f = Inr a)"
    and ex: "\<forall>f\<in>set (iter_fields fieldsets).
        truthy_mode f \<noteq> None \<longrightarrow> short_name f \<notin> set (excluded_names excluded_fields)"
  shows "\<exists>doc properties.
      get_jsonschema_for_fti e t excluded_fields = Inr doc
      \<and> get_jsonschema_properties e fieldsets [] (Some (excluded_names excluded_fields)) None =
          Inr properties
      \<and> map fst (doc_properties doc) = map fst properties
      \<and> (\<forall>n. case last_mode n (iter_fields fieldsets) of
                Some m \<Rightarrow>
                  (\<exists>p. map_of properties n = Some p
                     \<and> map_of (doc_properties doc) n = Some (AList.update ''mode'' (JStr m) p))
              | None \<Rightarrow> map_of (doc_properties doc) n = map_of properties n)
      \<and> (distinct (map short_name (iter_fields fieldsets)) \<longrightarrow>
          (\<forall>f\<in>set (iter_fields fieldsets). \<forall>m. truthy_mode f = Some m \<longrightarrow>
             (\<exists>p. map_of (doc_properties doc) (short_name f) = Some p
                \<and> map_of p ''mode'' = Some (JStr m))))"
proof -
  let ?fs = "iter_fields fieldsets"
  let ?ex = "excluded_names excluded_fields"
  from loop_succeeds [OF ad] obtain properties where
    pl: "properties_loop e [] ?ex None ?fs [] = Inr properties"
    by blast
  then have gp: "get_jsonschema_properties e fieldsets [] (Some ?ex) None = Inr properties"
    by (simp add: get_jsonschema_properties_def)
  have nm: "\<forall>g\<in>set ?fs. Some (short_name g) \<noteq> None"
    by simp
  from loop_order [OF nm pl]
  have "set (map fst properties) =
      set (map (\<lambda>g. prefixed [] (short_name g)) (filter (\<lambda>g. short_name g \<notin> set ?ex) ?fs))"
    by (simp add: set_insert_order)
  then have keys: "fst ` set properties = short_name ` {g \<in> set ?fs. short_name g \<notin> set ?ex}"
    by (simp add: prefixed_def)
  have "\<forall>f\<in>set ?fs. truthy_mode f \<noteq> None \<longrightarrow> short_name f \<in> fst ` set properties"
    using ex keys by auto
  from include_modes_succeeds [OF this] obtain properties' where
    im: "include_modes ?fs properties = Inr properties'"
    by blast
  define doc where "doc = \<lparr>doc_type = ''object'', doc_title = translate e (Title t) None None,
      doc_properties = IJsonCompatible properties',
      doc_required = required_loop ?fs [],
      doc_fieldsets = get_fieldset_infos fieldsets,
      doc_layouts = (case view_methods t of None \<Rightarrow> [] | Some vs \<Rightarrow> vs)\<rparr>"
  have d: "get_jsonschema_for_fti e t excluded_fields = Inr doc"
    using fss gp im by (simp add: get_jsonschema_for_fti_def Let_def doc_def)
  have dp: "doc_properties doc = properties'"
    by (simp add: doc_def IJsonCompatible_def)
  have k: "map fst (doc_properties doc) = map fst properties"
    using include_modes_keys [OF im] dp by simp
  have v: "\<forall>n. case last_mode n ?fs of
                Some m \<Rightarrow>
                  (\<exists>p. map_of properties n = Some p
                     \<and> map_of (doc_properties doc) n = Some (AList.update ''mode'' (JStr m) p))
              | None \<Rightarrow> map_of (doc_properties doc) n = map_of properties n"
  proof
    fix n
    show "case last_mode n ?fs of
                Some m \<Rightarrow>
                  (\<exists>p. map_of properties n = Some p
                     \<and> map_of (doc_properties doc) n = Some (AList.update ''mode'' (JStr m) p))
              | None \<Rightarrow> map_of (doc_properties doc) n = map_of properties n"
    proof (cases "last_mode n ?fs")
      case None
      with include_modes_values [OF im, of n] dp show ?thesis by simp
    next
      case (Some m)
      have "\<exists>f\<in>set ?fs. short_name f = n \<and> truthy_mode f \<noteq> None"
        using last_mode_SomeD [OF Some] by auto
      then have "n \<in> fst ` set properties"
        using ex keys by auto
      then obtain p where "map_of properties n = Some p"
        by (metis domD dom_map_of_conv_image_fst)
      with include_modes_values [OF im, of n] dp Some show ?thesis by simp
    qed
  qed
  have "\<forall>f\<in>set ?fs. \<forall>m. truthy_mode f = Some m \<longrightarrow>
             (\<exists>p. map_of (doc_properties doc) (short_name f) = Some p
                \<and> map_of p ''mode'' = Some (JStr m))"
    if dist: "distinct (map short_name ?fs)"
  proof (intro ballI allI impI)
    fix f m
    assume f: "f \<in> set ?fs" and m: "truthy_mode f = Some m"
    from last_mode_distinct [OF dist f] m have "last_mode (short_name f) ?fs = Some m"
      by simp
    with v [rule_format, of "short_name f"] obtain p where
      "map_of (doc_properties doc) (short_name f) = Some (AList.update ''mode'' (JStr m) p)"
      by auto
    then show "\<exists>p. map_of (doc_properties doc) (short_name f) = Some p
                \<and> map_of p ''mode'' = Some (JStr m)"
      by (simp add: AList.update_conv')
  qed
  with d gp k v show ?thesis by blast
qed

text \<open>
  The sample document type without \<open>summary\<close>: the field \<open>notes\<close> is hidden, and its
  property says so.
\<close>

theorem field_modes_attached_witness:
  "\<exists>doc. get_jsonschema_for_fti sample_env (sample_fti ''Document'' ''IDocument'')
            (Some [''summary'']) = Inr doc
     \<and> (\<exists>p. map_of (doc_properties doc) ''notes'' = Some p
            \<and> map_of p ''mode'' = Some (JStr ''hidden''))"
proof -
  have fss: "lookup_fieldsets sample_env (sample_fti ''Document'' ''IDocument'') =
      Inr document_fieldsets"
    by (simp add: fti_defs sample_defs)
  have it: "iter_fields document_fieldsets =
      [title_field, summary_field, notes_field, related_field]"
    by (simp add: sample_defs model_defs)
  have ad: "\<forall>f\<in>set (iter_fields document_fieldsets).
      short_name f \<in> set (excluded_names (Some [''summary''])) \<or>
      (\<exists>a. resolve_adapter sample_env f = Inr a)"
    unfolding it by (simp add: sample_defs model_defs)
  have ex: "\<forall>f\<in>set (iter_fields document_fieldsets).
      truthy_mode f \<noteq> None \<longrightarrow> short_name f \<notin> set (excluded_names (Some [''summary'']))"
    unfolding it by (simp add: sample_defs model_defs truthy_mode_def)
  have dist: "distinct (map short_name (iter_fields document_fieldsets))"
    unfolding it by (simp add: sample_defs model_defs)
  have nf: "notes_field \<in> set (iter_fields document_fieldsets)"
    "truthy_mode notes_field = Some ''hidden''" "short_name notes_field = ''notes''"
    unfolding it by (simp_all add: notes_field_def truthy_mode_def short_name_def sample_field_def)
  from field_modes_attached [OF fss ad ex] obtain doc where
    d: "get_jsonschema_for_fti sample_env (sample_fti ''Document'' ''IDocument'')
          (Some [''summary'']) = Inr doc"
    and m: "distinct (map short_name (iter_fields document_fieldsets)) \<longrightarrow>
          (\<forall>f\<in>set (iter_fields document_fieldsets). \<forall>m. truthy_mode f = Some m \<longrightarrow>
             (\<exists>p. map_of (doc_properties doc) (short_name f) = Some p
                \<and> map_of p ''mode'' = Some (JStr m)))"
    by blast
  from m dist nf have "\<exists>p. map_of (doc_properties doc) ''notes'' = Some p
      \<and> map_of p ''mode'' = Some (JStr ''hidden'')"
    by metis
  with d show ?thesis by blast
qed

text \<open>
  The claim as stated fails. The field \<open>notes\<close> of the sample document type has a mode;
  when \<open>notes\<close> is excluded the call does not complete: the mode pass looks for the
  property of \<open>notes\<close>, which was not made, and raises \<^verbatim>\<open>KeyError\<close>. And in the sample
  event type the field \<open>title\<close> of the default fieldset has no mode, yet its property
  has the key \<open>mode\<close>, from the field of the same short name in the group.
\<close>

theorem field_modes_counterexample:
  "notes_field \<in> set (iter_fields document_fieldsets)
   \<and> mode notes_field = Some ''hidden''
   \<and> get_jsonschema_for_fti sample_env (sample_fti ''Document'' ''IDocument'') (Some [''notes'']) =
       Inl KeyError
   \<and> mode title_field = None
   \<and> (\<exists>doc. get_jsonschema_for_fti sample_env (sample_fti ''Event'' ''IEvent'') None = Inr doc
          \<and> map_of (doc_properties doc) ''title'' =
              Some [(''type'', JStr ''string''), (''title'', JStr ''title''),
                    (''mode'', JStr ''display'')])"
  by (simp add: fti_defs sample_defs model_defs)

subsection \<open>Widget parameters\<close>

lemmas widget_defs = get_widget_params_def widget_schema_def nested_schema_def
  sample_calls_def constant_calls_def declared_callables_def schema_callables_def
  widget_callables_def literal_params_def is_literal_def

lemma params_items_called:
  "snd (snd (params_items call ps d (w, called))) = called @ widget_callables ps"
proof (induction ps arbitrary: d w called)
  case Nil
  then show ?case by (simp add: widget_callables_def)
next
  case (Cons kv ps)
  obtain k v where kv: "kv = (k, v)" by (cases kv)
  show ?case
  proof (cases v)
    case (Literal j)
    with kv Cons.IH [of "AList.update k v d" w called] show ?thesis
      by (simp add: widget_callables_def)
  next
    case (Callable c)
    obtain r w' where c: "call c w = (r, w')" by (cases "call c w")
    with kv Callable Cons.IH [of "AList.update k r d" w' "called @ [c]"] show ?thesis
      by (simp add: widget_callables_def)
  qed
qed

lemma params_names_called:
  "snd (snd (params_names call tv names params (w, called))) =
     called @ concat (map (\<lambda>n. case map_of tv n of
                        Some (ParameterizedWidget ps) \<Rightarrow> widget_callables ps
                      | _ \<Rightarrow> []) names)"
proof (induction names arbitrary: params w called)
  case Nil
  then show ?case by simp
next
  case (Cons n names)
  show ?case
  proof (cases "map_of tv n")
    case None
    with Cons.IH show ?thesis by simp
  next
    case (Some wd)
    show ?thesis
    proof (cases wd)
      case (WidgetName x)
      with Some Cons.IH show ?thesis by simp
    next
      case (ParameterizedWidget ps)
      show ?thesis
      proof (cases "ps = []")
        case True
        with Some ParameterizedWidget Cons.IH show ?thesis
          by (simp add: widget_callables_def)
      next
        case False
        obtain d w' called' where i: "params_items call ps [] (w, called) = (d, (w', called'))"
          by (metis prod.exhaust)
        with params_items_called [of call ps "[]" w called]
        have "called' = called @ widget_callables ps" by simp
        with Some ParameterizedWidget False i
          Cons.IH [of "AList.update n d params" w' called']
        show ?thesis by simp
      qed
    qed
  qed
qed

lemma params_schemas_called:
  "snd (snd (params_schemas call schemas params (w, called))) =
     called @ declared_callables schemas"
proof (induction schemas arbitrary: params w called)
  case Nil
  then show ?case by (simp add: declared_callables_def)
next
  case (Cons s schemas)
  show ?case
  proof (cases s)
    case None
    with Cons.IH [of params w called] show ?thesis
      by (simp add: declared_callables_def)
  next
    case (Some sch)
    obtain params' w' called' where
      n: "params_names call (schema_widgets sch) (schema_names sch) params (w, called) =
          (params', (w', called'))"
      by (metis prod.exhaust)
    with params_names_called [of call "schema_widgets sch" "schema_names sch" params w called]
    have "called' = called @ schema_callables sch"
      by (simp add: schema_callables_def)
    with Some n Cons.IH [of params' w' called'] show ?thesis
      by (simp add: declared_callables_def)
  qed
qed

lemma params_schemas_skip:
  "params_schemas call schemas params s =
   params_schemas call (filter (\<lambda>x. x \<noteq> None) schemas) params s"
proof (induction schemas arbitrary: params s)
  case Nil
  then show ?case by simp
next
  case (Cons x schemas)
  then show ?case
    by (cases x) (auto split: prod.splits)
qed


lemma list_all_update:
  "P (k, v) \<Longrightarrow> list_all P al \<Longrightarrow> list_all P (AList.update k v al)"
  by (induction al) auto

lemma params_items_literal:
  "list_all (\<lambda>(k, v). is_literal v) d \<Longrightarrow>
   \<forall>c\<in>set (widget_callables ps). \<forall>u. is_literal (fst (call c u)) \<Longrightarrow>
   list_all (\<lambda>(k, v). is_literal v) (fst (params_items call ps d (w, called)))"
proof (induction ps arbitrary: d w called)
  case Nil
  then show ?case by simp
next
  case (Cons kv ps)
  obtain k v where kv: "kv = (k, v)" by (cases kv)
  show ?case
  proof (cases v)
    case (Literal j)
    have "list_all (\<lambda>(k, v). is_literal v) (AList.update k v d)"
      using Cons.prems(1) Literal by (intro list_all_update) (simp_all add: is_literal_def)
    moreover have "\<forall>c\<in>set (widget_callables ps). \<forall>u. is_literal (fst (call c u))"
      using Cons.prems(2) kv by (simp add: widget_callables_def)
    ultimately show ?thesis
      using kv Literal Cons.IH [of "AList.update k v d" w called] by simp
  next
    case (Callable c)
    obtain r w' where c: "call c w = (r, w')" by (cases "call c w")
    have "is_literal r"
      using Cons.prems(2) kv Callable c by (auto simp: widget_callables_def dest: spec [of _ w])
    then have "list_all (\<lambda>(k, v). is_literal v) (AList.update k r d)"
      using Cons.prems(1) by (intro list_all_update) simp_all
    moreover have "\<forall>c\<in>set (widget_callables ps). \<forall>u. is_literal (fst (call c u))"
      using Cons.prems(2) kv by (simp add: widget_callables_def)
    ultimately show ?thesis
      using kv Callable c Cons.IH [of "AList.update k r d" w' "called @ [c]"] by simp
  qed
qed

lemma params_names_literal:
  "literal_params params \<Longrightarrow>
   \<forall>c\<in>set (concat (map (\<lambda>n. case map_of tv n of
                        Some (ParameterizedWidget ps) \<Rightarrow> widget_callables ps
                      | _ \<Rightarrow> []) names)). \<forall>u. is_literal (fst (call c u)) \<Longrightarrow>
   literal_params (fst (params_names call tv names params (w, called)))"
proof (induction names arbitrary: params w called)
  case Nil
  then show ?case by simp
next
  case (Cons n names)
  from Cons.prems(2) have rest:
    "\<forall>c\<in>set (concat (map (\<lambda>n. case map_of tv n of
                        Some (ParameterizedWidget ps) \<Rightarrow> widget_callables ps
                      | _ \<Rightarrow> []) names)). \<forall>u. is_literal (fst (call c u))"
    by simp
  show ?case
  proof (cases "map_of tv n")
    case None
    with Cons.IH [OF Cons.prems(1) rest] show ?thesis by simp
  next
    case (Some wd)
    show ?thesis
    proof (cases wd)
      case (WidgetName x)
      with Some Cons.IH [OF Cons.prems(1) rest] show ?thesis by simp
    next
      case (ParameterizedWidget ps)
      show ?thesis
      proof (cases "ps = []")
        case True
        with Some ParameterizedWidget Cons.IH [OF Cons.prems(1) rest] show ?thesis by simp
      next
        case False
        obtain d w' called' where i: "params_items call ps [] (w, called) = (d, (w', called'))"
          by (metis prod.exhaust)
        have "\<forall>c\<in>set (widget_callables ps). \<forall>u. is_literal (fst (call c u))"
          using Cons.prems(2) Some ParameterizedWidget by simp
        from params_items_literal [OF _ this, of "[]" w called] i
        have "list_all (\<lambda>(k, v). is_literal v) d" by simp
        with Cons.prems(1) have "literal_params (AList.update n d params)"
          unfolding literal_params_def by (intro list_all_update) simp_all
        from Cons.IH [OF this rest, of w' called'] Some ParameterizedWidget False i
        show ?thesis by simp
      qed
    qed
  qed
qed

lemma params_schemas_literal:
  "literal_params params \<Longrightarrow>
   \<forall>c\<in>set (declared_callables schemas). \<forall>u. is_literal (fst (call c u)) \<Longrightarrow>
   literal_params (fst (params_schemas call schemas params (w, called)))"
proof (induction schemas arbitrary: params w called)
  case Nil
  then show ?case by simp
next
  case (Cons s schemas)
  from Cons.prems(2) have rest:
    "\<forall>c\<in>set (declared_callables schemas). \<forall>u. is_literal (fst (call c u))"
    by (simp add: declared_callables_def)
  show ?case
  proof (cases s)
    case None
    with Cons.IH [OF Cons.prems(1) rest] show ?thesis by simp
  next
    case (Some sch)
    obtain params' w' called' where
      n: "params_names call (schema_widgets sch) (schema_names sch) params (w, called) =
          (params', (w', called'))"
      by (metis prod.exhaust)
    have "\<forall>c\<in>set (schema_callables sch). \<forall>u. is_literal (fst (call c u))"
      using Cons.prems(2) Some by (simp add: declared_callables_def)
    from params_names_literal [OF Cons.prems(1) this [unfolded schema_callables_def], of w called] n
    have "literal_params params'" by simp
    from Cons.IH [OF this rest, of w' called'] Some n show ?thesis by simp
  qed
qed


lemma params_items_state:
  "\<forall>c\<in>set (widget_callables ps). \<forall>u u'. fst (call c u) = fst (call c u') \<Longrightarrow>
   fst (params_items call ps d (w, called)) = fst (params_items call ps d (w', called'))"
proof (induction ps arbitrary: d w called w' called')
  case Nil
  then show ?case by simp
next
  case (Cons kv ps)
  obtain k v where kv: "kv = (k, v)" by (cases kv)
  from Cons.prems kv have rest:
    "\<forall>c\<in>set (widget_callables ps). \<forall>u u'. fst (call c u) = fst (call c u')"
    by (simp add: widget_callables_def)
  show ?case
  proof (cases v)
    case (Literal j)
    with kv Cons.IH [OF rest, of "AList.update k v d" w called w' called'] show ?thesis
      by simp
  next
    case (Callable c)
    obtain r u where c: "call c w = (r, u)" by (cases "call c w")
    obtain r' u' where c': "call c w' = (r', u')" by (cases "call c w'")
    have "fst (call c w) = fst (call c w')"
      using Cons.prems kv Callable by (simp add: widget_callables_def)
    with c c' have "r' = r" by simp
    with kv Callable c c'
      Cons.IH [OF rest, of "AList.update k r d" u "called @ [c]" u' "called' @ [c]"]
    show ?thesis by simp
  qed
qed

lemma params_names_state:
  "\<forall>c\<in>set (concat (map (\<lambda>n. case map_of tv n of
                        Some (ParameterizedWidget ps) \<Rightarrow> widget_callables ps
                      | _ \<Rightarrow> []) names)). \<forall>u u'. fst (call c u) = fst (call c u') \<Longrightarrow>
   fst (params_names call tv names params (w, called)) =
   fst (params_names call tv names params (w', called'))"
proof (induction names arbitrary: params w called w' called')
  case Nil
  then show ?case by simp
next
  case (Cons n names)
  from Cons.prems have rest:
    "\<forall>c\<in>set (concat (map (\<lambda>n. case map_of tv n of
                        Some (ParameterizedWidget ps) \<Rightarrow> widget_callables ps
                      | _ \<Rightarrow> []) names)). \<forall>u u'. fst (call c u) = fst (call c u')"
    by simp
  show ?case
  proof (cases "map_of tv n")
    case None
    with Cons.IH [OF rest] show ?thesis by simp
  next
    case (Some wd)
    show ?thesis
    proof (cases wd)
      case (WidgetName x)
      with Some Cons.IH [OF rest] show ?thesis by simp
    next
      case (ParameterizedWidget ps)
      show ?thesis
      proof (cases "ps = []")
        case True
        with Some ParameterizedWidget Cons.IH [OF rest] show ?thesis by simp
      next
        case False
        obtain d u cl where i: "params_items call ps [] (w, called) = (d, (u, cl))"
          by (metis prod.exhaust)
        obtain d' u' cl' where i': "params_items call ps [] (w', called') = (d', (u', cl'))"
          by (metis prod.exhaust)
        have "\<forall>c\<in>set (widget_callables ps). \<forall>u u'. fst (call c u) = fst (call c u')"
          using Cons.prems Some ParameterizedWidget by simp
        from params_items_state [OF this, of "[]" w called w' called'] i i'
        have "d' = d" by simp
        with Some ParameterizedWidget False i i'
          Cons.IH [OF rest, of "AList.update n d params" u cl u' cl']
        show ?thesis by simp
      qed
    qed
  qed
qed

lemma params_schemas_state:
  "\<forall>c\<in>set (declared_callables schemas). \<forall>u u'. fst (call c u) = fst (call c u') \<Longrightarrow>
   fst (params_schemas call schemas params (w, called)) =
   fst (params_schemas call schemas params (w', called'))"
proof (induction schemas arbitrary: params w called w' called')
  case Nil
  then show ?case by simp
next
  case (Cons s schemas)
  from Cons.prems have rest:
    "\<forall>c\<in>set (declared_callables schemas). \<forall>u u'. fst (call c u) = fst (call c u')"
    by (simp add: declared_callables_def)
  show ?case
  proof (cases s)
    case None
    with Cons.IH [OF rest] show ?thesis by simp
  next
    case (Some sch)
    obtain p u cl where
      n: "params_names call (schema_widgets sch) (schema_names sch) params (w, called) =
          (p, (u, cl))"
      by (metis prod.exhaust)
    obtain p' u' cl' where
      n': "params_names call (schema_widgets sch) (schema_names sch) params (w', called') =
          (p', (u', cl'))"
      by (metis prod.exhaust)
    have "\<forall>c\<in>set (schema_callables sch). \<forall>u u'. fst (call c u) = fst (call c u')"
      using Cons.prems Some by (simp add: declared_callables_def)
    from params_names_state [OF this [unfolded schema_callables_def], of params w called w' called']
      n n'
    have "p' = p" by simp
    with Some n n' Cons.IH [OF rest, of p u cl u' cl'] show ?thesis by simp
  qed
qed

lemma get_widget_params_parts:
  "fst (get_widget_params call schemas w) = fst (params_schemas call schemas [] (w, []))"
  "snd (snd (get_widget_params call schemas w)) =
     snd (snd (params_schemas call schemas [] (w, [])))"
  by (simp_all add: get_widget_params_def split: prod.splits)

lemma call_results_length [simp]: "length (call_results call cs w) = length cs"
  by (induction cs arbitrary: w) simp_all

lemma call_results_append:
  "call_results call (cs @ ds) w =
     call_results call cs w @ call_results call ds (call_state call cs w)"
  by (induction cs arbitrary: w) simp_all

lemma call_state_append:
  "call_state call (cs @ ds) w = call_state call ds (call_state call cs w)"
  by (induction cs arbitrary: w) simp_all

lemma assign_all_Nil [simp]: "assign_all d [] = d"
  by (simp add: assign_all_def)

lemma assign_all_Cons [simp]: "assign_all d ((k, v) # kvs) = assign_all (AList.update k v d) kvs"
  by (simp add: assign_all_def)

lemma assign_all_append: "assign_all d (xs @ ys) = assign_all (assign_all d xs) ys"
  by (simp add: assign_all_def)

lemma widget_callables_Cons:
  "widget_callables ((k, Literal j) # kvs) = widget_callables kvs"
  "widget_callables ((k, Callable c) # kvs) = c # widget_callables kvs"
  "widget_callables [] = []"
  by (simp_all add: widget_callables_def)

lemma params_items_filled:
  "params_items call ps d (w, called) =
     (assign_all d (fill_results ps (call_results call (widget_callables ps) w)),
      (call_state call (widget_callables ps) w, called @ widget_callables ps))"
proof (induction ps arbitrary: d w called)
  case Nil
  then show ?case by (simp add: widget_callables_Cons)
next
  case (Cons kv ps)
  obtain k v where kv: "kv = (k, v)" by (cases kv)
  show ?case
  proof (cases v)
    case (Literal j)
    with kv Cons.IH [of "AList.update k v d" w called] show ?thesis
      by (simp add: widget_callables_Cons)
  next
    case (Callable c)
    obtain r w' where c: "call c w = (r, w')" by (cases "call c w")
    with kv Callable Cons.IH [of "AList.update k r d" w' "called @ [c]"] show ?thesis
      by (simp add: widget_callables_Cons)
  qed
qed

lemma resolved_Nil [simp]: "resolved call [] w = []"
  by (simp add: resolved_def)

lemma resolved_Cons:
  "resolved call ((n, ps) # ds) w =
     (n, assign_all [] (fill_results ps (call_results call (widget_callables ps) w)))
       # resolved call ds (call_state call (widget_callables ps) w)"
  by (simp add: resolved_def callables_of_def call_results_append)

lemma resolved_append:
  "resolved call (ds @ es) w = resolved call ds w @ resolved call es (call_state call (callables_of ds) w)"
proof (induction ds arbitrary: w)
  case Nil
  then show ?case by (simp add: callables_of_def)
next
  case (Cons d ds)
  obtain n ps where d: "d = (n, ps)" by (cases d)
  have "callables_of ((n, ps) # ds) = widget_callables ps @ callables_of ds"
    by (simp add: callables_of_def)
  with d Cons.IH show ?case
    by (simp add: resolved_Cons call_state_append)
qed


lemma callables_of_simps [simp]:
  "callables_of [] = []"
  "callables_of ((n, ps) # ds) = widget_callables ps @ callables_of ds"
  "callables_of (ds @ es) = callables_of ds @ callables_of es"
  by (simp_all add: callables_of_def)

lemma params_names_filled:
  "params_names call tv names params (w, called) =
     (assign_all params
        (resolved call
           (concat (map (\<lambda>n. case map_of tv n of
                        Some (ParameterizedWidget ps) \<Rightarrow> if ps \<noteq> [] then [(n, ps)] else []
                      | _ \<Rightarrow> []) names)) w),
      (call_state call
         (callables_of
           (concat (map (\<lambda>n. case map_of tv n of
                        Some (ParameterizedWidget ps) \<Rightarrow> if ps \<noteq> [] then [(n, ps)] else []
                      | _ \<Rightarrow> []) names))) w,
       called @
       callables_of
         (concat (map (\<lambda>n. case map_of tv n of
                        Some (ParameterizedWidget ps) \<Rightarrow> if ps \<noteq> [] then [(n, ps)] else []
                      | _ \<Rightarrow> []) names))))"
proof (induction names arbitrary: params w called)
  case Nil
  then show ?case by simp
next
  case (Cons n names)
  show ?case
  proof (cases "map_of tv n")
    case None
    with Cons.IH show ?thesis by simp
  next
    case (Some wd)
    show ?thesis
    proof (cases wd)
      case (WidgetName x)
      with Some Cons.IH show ?thesis by simp
    next
      case (ParameterizedWidget ps)
      show ?thesis
      proof (cases "ps = []")
        case True
        with Some ParameterizedWidget Cons.IH show ?thesis by simp
      next
        case False
        with Some ParameterizedWidget
          Cons.IH [of "AList.update n
              (assign_all [] (fill_results ps (call_results call (widget_callables ps) w))) params"
            "call_state call (widget_callables ps) w" "called @ widget_callables ps"]
        show ?thesis
          by (simp add: params_items_filled resolved_Cons call_state_append)
      qed
    qed
  qed
qed

lemma params_schemas_filled:
  "params_schemas call schemas params (w, called) =
     (assign_all params (resolved call (declarations schemas) w),
      (call_state call (callables_of (declarations schemas)) w,
       called @ callables_of (declarations schemas)))"
proof (induction schemas arbitrary: params w called)
  case Nil
  then show ?case by (simp add: declarations_def)
next
  case (Cons s schemas)
  show ?case
  proof (cases s)
    case None
    with Cons.IH [of params w called] show ?thesis
      by (simp add: declarations_def)
  next
    case (Some sch)
    have d: "declarations (Some sch # schemas) = schema_declarations sch @ declarations schemas"
      by (simp add: declarations_def)
    show ?thesis
      unfolding d Some
      using Cons.IH [of "assign_all params (resolved call (schema_declarations sch) w)"
          "call_state call (callables_of (schema_declarations sch)) w"
          "called @ callables_of (schema_declarations sch)"]
      by (simp add: params_names_filled schema_declarations_def [symmetric] resolved_append
          assign_all_append call_state_append)
  qed
qed

lemma declared_callables_declarations:
  "declared_callables schemas = callables_of (declarations schemas)"
proof -
  have "schema_callables sch = callables_of (schema_declarations sch)" for sch
  proof -
    have "concat (map (\<lambda>n. case map_of tv n of
                        Some (ParameterizedWidget ps) \<Rightarrow> widget_callables ps
                      | _ \<Rightarrow> []) names) =
        callables_of (concat (map (\<lambda>n. case map_of tv n of
                        Some (ParameterizedWidget ps) \<Rightarrow> if ps \<noteq> [] then [(n, ps)] else []
                      | _ \<Rightarrow> []) names))" for tv names
      by (induction names)
         (auto simp: widget_callables_def split: option.splits widget.splits)
    then show ?thesis
      by (simp add: schema_callables_def schema_declarations_def)
  qed
  then show ?thesis
    by (induction schemas)
       (auto simp: declared_callables_def declarations_def split: option.splits)
qed

lemma fill_results_state_free:
  "\<forall>c\<in>set (widget_callables ps). \<forall>u. fst (call c u) = res c \<Longrightarrow>
   fill_results ps (call_results call (widget_callables ps) w) =
     map (\<lambda>(k, v). (k, resolve_with res v)) ps"
proof (induction ps arbitrary: w)
  case Nil
  then show ?case by simp
next
  case (Cons kv ps)
  obtain k v where kv: "kv = (k, v)" by (cases kv)
  show ?case
  proof (cases v)
    case (Literal j)
    with kv Cons show ?thesis
      by (simp add: widget_callables_Cons resolve_with_def)
  next
    case (Callable c)
    with kv Cons show ?thesis
      by (simp add: widget_callables_Cons resolve_with_def)
  qed
qed

lemma fill_declarations_state_free:
  "\<forall>c\<in>set (callables_of ds). \<forall>u. fst (call c u) = res c \<Longrightarrow>
   fill_declarations ds (call_results call (callables_of ds) w) =
     map (\<lambda>(n, ps). (n, map (\<lambda>(k, v). (k, resolve_with res v)) ps)) ds"
proof (induction ds arbitrary: w)
  case Nil
  then show ?case by simp
next
  case (Cons d ds)
  obtain n ps where d: "d = (n, ps)" by (cases d)
  from Cons.prems d have
    1: "\<forall>c\<in>set (widget_callables ps). \<forall>u. fst (call c u) = res c" and
    2: "\<forall>c\<in>set (callables_of ds). \<forall>u. fst (call c u) = res c"
    by simp_all
  from d fill_results_state_free [OF 1] Cons.IH [OF 2] show ?case
    by (simp add: call_results_append)
qed

text \<open>
  C8, as the code has it. Absent schemas are skipped: the call does what it does on the
  schemas that are present. The callables called are the callables among the parameters
  gone through, one call for each occurrence, in the order of the traversal, each in the
  state the call before it leaves. The result is built from the declarations gone through,
  by assignment in that order (a later declaration for a name replaces an earlier one), with
  every literal kept and every callable replaced by what its call returned; that value is
  not looked at again. So, when what each callable returns does not depend on the state,
  each callable \<open>c\<close> is replaced by that value \<open>res c\<close>; the result holds only literals
  provided no callable returns a callable; and resolving the same schemas a second time, in
  the state the first resolution leaves, gives the same parameters provided what each
  callable returns does not depend on the state it is called in.
\<close>

theorem widget_params_resolved:
  "get_widget_params call schemas w =
     get_widget_params call (filter (\<lambda>s. s \<noteq> None) schemas) w
   \<and> snd (snd (get_widget_params call schemas w)) = declared_callables schemas
   \<and> fst (snd (get_widget_params call schemas w)) =
       call_state call (declared_callables schemas) w
   \<and> fst (get_widget_params call schemas w) =
       assign_all []
         (map (\<lambda>(n, kvs). (n, assign_all [] kvs))
            (fill_declarations (declarations schemas)
               (call_results call (declared_callables schemas) w)))
   \<and> ((\<forall>c\<in>set (declared_callables schemas). \<forall>u. fst (call c u) = res c) \<longrightarrow>
        fst (get_widget_params call schemas w) =
          assign_all []
            (map (\<lambda>(n, ps). (n, assign_all [] (map (\<lambda>(k, v). (k, resolve_with res v)) ps)))
               (declarations schemas)))
   \<and> ((\<forall>c\<in>set (declared_callables schemas). \<forall>u. is_literal (fst (call c u))) \<longrightarrow>
        literal_params (fst (get_widget_params call schemas w)))
   \<and> ((\<forall>c\<in>set (declared_callables schemas). \<forall>u u'. fst (call c u) = fst (call c u')) \<longrightarrow>
        fst (get_widget_params call schemas (fst (snd (get_widget_params call schemas w)))) =
        fst (get_widget_params call schemas w))"
proof -
  have skip: "get_widget_params call schemas w =
     get_widget_params call (filter (\<lambda>s. s \<noteq> None) schemas) w"
    using params_schemas_skip [of call schemas "[]" "(w, [])"]
    by (simp add: get_widget_params_def)
  have called: "snd (snd (get_widget_params call schemas w)) = declared_callables schemas"
    using params_schemas_called [of call schemas "[]" w "[]"]
    by (simp add: get_widget_params_parts)
  have state: "fst (snd (get_widget_params call schemas w)) =
       call_state call (declared_callables schemas) w"
    using params_schemas_filled [of call schemas "[]" w "[]"]
    by (simp add: get_widget_params_def declared_callables_declarations)
  have vals: "fst (get_widget_params call schemas w) =
       assign_all []
         (map (\<lambda>(n, kvs). (n, assign_all [] kvs))
            (fill_declarations (declarations schemas)
               (call_results call (declared_callables schemas) w)))"
    using params_schemas_filled [of call schemas "[]" w "[]"]
    by (simp add: get_widget_params_def declared_callables_declarations resolved_def)
  have free: "fst (get_widget_params call schemas w) =
          assign_all []
            (map (\<lambda>(n, ps). (n, assign_all [] (map (\<lambda>(k, v). (k, resolve_with res v)) ps)))
               (declarations schemas))"
    if "\<forall>c\<in>set (declared_callables schemas). \<forall>u. fst (call c u) = res c"
    using that fill_declarations_state_free [of "declarations schemas" call res w]
    by (simp add: vals declared_callables_declarations comp_def case_prod_unfold)
  have lit: "literal_params (fst (get_widget_params call schemas w))"
    if "\<forall>c\<in>set (declared_callables schemas). \<forall>u. is_literal (fst (call c u))"
    using params_schemas_literal [OF _ that, of "[]" w "[]"]
    by (simp add: get_widget_params_parts literal_params_def)
  have twice: "fst (get_widget_params call schemas (fst (snd (get_widget_params call schemas w)))) =
        fst (get_widget_params call schemas w)"
    if "\<forall>c\<in>set (declared_callables schemas). \<forall>u u'. fst (call c u) = fst (call c u')"
    using params_schemas_state [OF that]
    by (simp add: get_widget_params_parts)
  from skip called state vals free lit twice show ?thesis
    by (intro conjI impI)
qed

text \<open>
  The sample widget schema after an absent schema, with callables that return a literal
  and leave the state alone: callable \<open>c\<close> returns the number \<open>c\<close>.
\<close>

theorem widget_params_resolved_witness:
  "get_widget_params constant_calls [None, Some widget_schema] (0::nat) =
     ([(''subjects'',
        [(''vocabulary'', Literal (JStr ''keywords'')), (''limit'', Literal (JInt 0))])],
      0, [0])
   \<and> get_widget_params constant_calls [None, Some widget_schema] (0::nat) =
       get_widget_params constant_calls [Some widget_schema] 0
   \<and> literal_params (fst (get_widget_params constant_calls [None, Some widget_schema] (0::nat)))
   \<and> fst (get_widget_params constant_calls [None, Some widget_schema]
          (fst (snd (get_widget_params constant_calls [None, Some widget_schema] (0::nat))))) =
       fst (get_widget_params constant_calls [None, Some widget_schema] (0::nat))"
proof -
  let ?s = "[None, Some widget_schema]"
  have dc: "declared_callables ?s = [0]"
    by (simp add: widget_defs)
  have ds: "declarations ?s =
      [(''subjects'', [(''vocabulary'', Literal (JStr ''keywords'')), (''limit'', Callable 0)])]"
    by (simp add: declarations_def schema_declarations_def widget_schema_def)
  have res: "\<forall>c\<in>set (declared_callables ?s).
      \<forall>u::nat. fst (constant_calls c u) = Literal (JInt (int c))"
    by (simp add: constant_calls_def)
  have lit: "\<forall>c\<in>set (declared_callables ?s). \<forall>u::nat. is_literal (fst (constant_calls c u))"
    by (simp add: dc constant_calls_def is_literal_def)
  have det: "\<forall>c\<in>set (declared_callables ?s).
      \<forall>(u::nat) u'. fst (constant_calls c u) = fst (constant_calls c u')"
    by (simp add: dc constant_calls_def)
  note th = widget_params_resolved [where call = constant_calls and schemas = ?s
      and w = "0::nat" and res = "\<lambda>c. Literal (JInt (int c))"]
  from th have "snd (snd (get_widget_params constant_calls ?s (0::nat))) = declared_callables ?s"
    by blast
  then have c: "snd (snd (get_widget_params constant_calls ?s (0::nat))) = [0]"
    by (simp add: dc)
  from th have "fst (snd (get_widget_params constant_calls ?s (0::nat))) =
      call_state constant_calls (declared_callables ?s) 0"
    by blast
  then have s: "fst (snd (get_widget_params constant_calls ?s (0::nat))) = 0"
    by (simp add: dc constant_calls_def)
  from th res have "fst (get_widget_params constant_calls ?s (0::nat)) =
      assign_all []
        (map (\<lambda>(n, ps). (n, assign_all []
            (map (\<lambda>(k, v). (k, resolve_with (\<lambda>c. Literal (JInt (int c))) v)) ps)))
           (declarations ?s))"
    by blast
  then have p: "fst (get_widget_params constant_calls ?s (0::nat)) =
      [(''subjects'',
        [(''vocabulary'', Literal (JStr ''keywords'')), (''limit'', Literal (JInt 0))])]"
    by (simp add: ds resolve_with_def)
  from p s c have v: "get_widget_params constant_calls ?s (0::nat) =
     ([(''subjects'',
        [(''vocabulary'', Literal (JStr ''keywords'')), (''limit'', Literal (JInt 0))])],
      0, [0])"
    by (metis prod.collapse)
  from th lit det
  have "get_widget_params constant_calls ?s (0::nat) =
       get_widget_params constant_calls (filter (\<lambda>s. s \<noteq> None) ?s) 0
   \<and> literal_params (fst (get_widget_params constant_calls ?s (0::nat)))
   \<and> fst (get_widget_params constant_calls ?s
          (fst (snd (get_widget_params constant_calls ?s (0::nat))))) =
       fst (get_widget_params constant_calls ?s (0::nat))"
    by blast
  with v show ?thesis by (simp add: literal_params_def is_literal_def)
qed

text \<open>
  The claim as stated fails. Callable 1 returns a callable, which is stored as it is.
  Callable 0 returns the number of calls made before; resolving the sample widget schema
  twice, the second time in the state the first leaves, gives two different results.
\<close>

theorem widget_params_counterexample:
  "fst (get_widget_params sample_calls [Some nested_schema] 0) =
     [(''subjects'', [(''factory'', Callable 0)])]
   \<and> \<not> literal_params (fst (get_widget_params sample_calls [Some nested_schema] 0))
   \<and> fst (get_widget_params sample_calls [Some widget_schema] 0) =
     [(''subjects'',
       [(''vocabulary'', Literal (JStr ''keywords'')), (''limit'', Literal (JInt 0))])]
   \<and> fst (get_widget_params sample_calls [Some widget_schema]
          (fst (snd (get_widget_params sample_calls [Some widget_schema] 0)))) =
     [(''subjects'',
       [(''vocabulary'', Literal (JStr ''keywords'')), (''limit'', Literal (JInt 1))])]"
  by (simp add: widget_defs)

end
